theory Spec2Isabelle
  imports Complex_Main
begin

section \<open>Data model\<close>

text \<open>
  The report workflow of \<^verbatim>\<open>src/workflow.py\<close> and the clients it drives.
  Python exceptions caught by \<^verbatim>\<open>except Exception\<close> are values of \<open>exn\<close>;
  a computation that may raise returns \<open>exn + 'a\<close> with \<open>Inl\<close> the raised
  exception. Accented letters of the source's message texts are written without the
  accent, since the theory is plain ASCII.
\<close>

datatype exn = PermissionError string | Error string

fun str_exn :: "exn \<Rightarrow> string" where
  "str_exn (PermissionError m) = m"
| "str_exn (Error m) = m"

type_synonym 'a res = "exn + 'a"

text \<open>A value of a result-set column: SQL NULL (Python \<^verbatim>\<open>None\<close>) or a string.\<close>

datatype sqlval = SqlNull | SqlStr string

type_synonym row = "(string \<times> sqlval) list"

text \<open>The values stored in the \<^verbatim>\<open>detalles\<close> dictionary of a step.\<close>

datatype detval = DBool bool | DStr string | DRows "row list" | DFiles "string list"

type_synonym details = "(string \<times> detval) list"

record StepResult =
  nombre :: string
  success :: bool
  mensaje :: string
  duracion :: real
  detalles :: details

datatype sql_server = InfoCentral | DEADWH | CubosOfi

datatype param = PStr string | PInt int

text \<open>
  Every call that leaves the orchestrator is recorded as an event; the newest event is the
  head of the list. The answers of the outside world are functions of the events so far
  (the current call included), so a theorem that holds for every environment holds for
  every behaviour of the collaborators.
\<close>

datatype event =
    TableauSignIn
  | TableauSignOut
  | ValidarExtracto
  | RefreshExtracto
  | ExecuteSP sql_server string "param list"
  | ExecuteJob sql_server string
  | LimpiarOrigen
  | DescargarTodosReportes
  | DestinoExiste
  | CopiarArchivos
  | CrearTicketError string string
  | AlertaError string string "string option"
  | ResumenProceso bool "StepResult list" real
  | StepComplete StepResult

type_synonym datetime = int

record env =
  jira_user :: string
  jira_api_token :: string
  pdf_dest :: string
  clock :: "event list \<Rightarrow> real"
  fmt2 :: "real \<Rightarrow> string"
  str_datetime :: "datetime \<Rightarrow> string"
  strftime_local :: "datetime \<Rightarrow> string"
  on_step_complete :: "event list \<Rightarrow> unit res"
  tableau_connect :: "event list \<Rightarrow> bool"
  tableau_validar_extracto :: "event list \<Rightarrow> (bool \<times> string \<times> datetime option) res"
  tableau_refresh_extracto :: "event list \<Rightarrow> (bool \<times> string) res"
  tableau_descargar_todos_reportes :: "event list \<Rightarrow> (bool \<times> string \<times> string list) res"
  sql_execute_sp :: "event list \<Rightarrow> row list res"
  sql_execute_job :: "event list \<Rightarrow> bool \<times> string"
  fs_limpiar_origen :: "event list \<Rightarrow> unit res"
  fs_dest_exists :: "event list \<Rightarrow> bool res"
  fs_copiar :: "event list \<Rightarrow> string list res"
  jira_create_issue :: "event list \<Rightarrow> string res"
  dbmail_send :: "event list \<Rightarrow> unit res"

text \<open>The mutable fields of a \<^verbatim>\<open>ReportWorkflow\<close> instance, and the events so far.\<close>

record wf_state =
  steps :: "StepResult list"
  start_time :: "real option"
  ticket_jira :: "string option"
  events :: "event list"

type_synonym 'a prog = "wf_state \<Rightarrow> 'a res \<times> wf_state"

section \<open>Helpers of the embedding\<close>

text \<open>Python's \<^verbatim>\<open>sep.join(xs)\<close>.\<close>

fun join :: "string \<Rightarrow> string list \<Rightarrow> string" where
  "join sep [] = []"
| "join sep [x] = x"
| "join sep (x # y # ys) = x @ sep @ join sep (y # ys)"

text \<open>Decimal rendering of a length, as an f-string prints it.\<close>

definition digit_char :: "nat \<Rightarrow> char" where
  "digit_char d = ''0123456789'' ! d"

fun str_nat :: "nat \<Rightarrow> string" where
  "str_nat n = (if n < 10 then [digit_char n] else str_nat (n div 10) @ [digit_char (n mod 10)])"

declare str_nat.simps [simp del]

definition str_int :: "int \<Rightarrow> string" where
  "str_int i = (if i < 0 then CHR ''-'' # str_nat (nat (- i)) else str_nat (nat i))"

text \<open>One call to a collaborator: the call is recorded, then the world answers.\<close>

definition call :: "event \<Rightarrow> (event list \<Rightarrow> 'a) \<Rightarrow> wf_state \<Rightarrow> 'a \<times> wf_state" where
  "call ev oracle s = (let l = ev # events s in (oracle l, s\<lparr>events := l\<rparr>))"

text \<open>Sequencing of statements that may raise: an exception skips the rest.\<close>

definition bind :: "'a prog \<Rightarrow> ('a \<Rightarrow> 'b prog) \<Rightarrow> 'b prog" where
  "bind m f s = (case m s of (Inl e, s1) \<Rightarrow> (Inl e, s1) | (Inr a, s1) \<Rightarrow> f a s1)"

definition return :: "'a \<Rightarrow> 'a prog" where
  "return a s = (Inr a, s)"

section \<open>The step-execution wrapper\<close>

text \<open>\<^verbatim>\<open>detalles or {}\<close>: \<^verbatim>\<open>None\<close> and the empty dictionary are falsy.\<close>

definition or_empty :: "details option \<Rightarrow> details" where
  "or_empty d = (case d of None \<Rightarrow> [] | Some m \<Rightarrow> (if m = [] then [] else m))"

text \<open>
  \<^verbatim>\<open>ReportWorkflow._execute_step\<close>. The operation is any state transformer that
  returns a triple or raises; the observer callback is called after the result has been
  appended and is not guarded.
\<close>

definition execute_step ::
  "env \<Rightarrow> string \<Rightarrow> (bool \<times> string \<times> details option) prog \<Rightarrow> StepResult prog" where
  "execute_step env nom func s0 =
    (let start = clock env (events s0);
         (out, s1) = func s0;
         result = (case out of
             Inr (ok, msg, det) \<Rightarrow>
               \<lparr>nombre = nom, success = ok, mensaje = msg,
                duracion = clock env (events s1) - start, detalles = or_empty det\<rparr>
           | Inl e \<Rightarrow>
               \<lparr>nombre = nom, success = False, mensaje = str_exn e,
                duracion = clock env (events s1) - start, detalles = []\<rparr>);
         s2 = s1\<lparr>steps := steps s1 @ [result]\<rparr>;
         (cb, s3) = call (StepComplete result) (on_step_complete env) s2
     in case cb of Inl e \<Rightarrow> (Inl e, s3) | Inr u \<Rightarrow> (Inr result, s3))"

section \<open>Collaborating clients\<close>

definition try_except :: "'a prog \<Rightarrow> (exn \<Rightarrow> 'a prog) \<Rightarrow> 'a prog" where
  "try_except body handler s =
     (case body s of (Inl e, s1) \<Rightarrow> handler e s1 | (Inr v, s1) \<Rightarrow> (Inr v, s1))"

text \<open>\<^verbatim>\<open>Config.validate_jira\<close>: the list of missing settings.\<close>

definition validate_jira :: "env \<Rightarrow> string list" where
  "validate_jira env =
     (if jira_user env = [] then [''JIRA_USER no configurado''] else []) @
     (if jira_api_token env = [] then [''JIRA_API_TOKEN no configurado''] else [])"

text \<open>
  \<^verbatim>\<open>JiraClient.crear_ticket_error\<close>. Connecting to the tracker and creating the
  issue are one answer of the world (\<open>jira_create_issue\<close>: the new issue key, or the
  exception of either call); both sit inside the method's \<^verbatim>\<open>try\<close>.
\<close>

definition crear_ticket_error ::
  "env \<Rightarrow> string \<Rightarrow> string \<Rightarrow> (bool \<times> string \<times> string option) prog" where
  "crear_ticket_error env titulo descripcion s =
     (let s1 = s\<lparr>events := CrearTicketError titulo descripcion # events s\<rparr>;
          errors = validate_jira env
      in if errors \<noteq> [] then
           (Inr (False, ''Configuracion de Jira incompleta: '' @ join '', '' errors, None), s1)
         else
           try_except
             (bind (\<lambda>s. (jira_create_issue env (events s), s))
                (\<lambda>issue_key. return (True, ''Ticket creado: '' @ issue_key, Some issue_key)))
             (\<lambda>e. return (False, ''Error creando ticket en Jira: '' @ str_exn e, None)) s1)"

text \<open>
  \<^verbatim>\<open>Notifier._send_via_dbmail\<close>, and the two mails the workflow sends through it.
  The subject and the HTML body of a mail are functions of the arguments kept in the
  event.
\<close>

definition send_via_dbmail :: "env \<Rightarrow> event \<Rightarrow> (bool \<times> string) prog" where
  "send_via_dbmail env mail =
     try_except
       (bind (call mail (dbmail_send env)) (\<lambda>u. return (True, ''Email enviado exitosamente'')))
       (\<lambda>e. return (False, str_exn e))"

definition enviar_alerta_error ::
  "env \<Rightarrow> string \<Rightarrow> string \<Rightarrow> string option \<Rightarrow> (bool \<times> string) prog" where
  "enviar_alerta_error env titulo mensaje_txt ticket =
     send_via_dbmail env (AlertaError titulo mensaje_txt ticket)"

definition enviar_resumen_proceso ::
  "env \<Rightarrow> bool \<Rightarrow> StepResult list \<Rightarrow> real \<Rightarrow> (bool \<times> string) prog" where
  "enviar_resumen_proceso env exito pasos tiempo_total =
     send_via_dbmail env (ResumenProceso exito pasos tiempo_total)"

text \<open>\<^verbatim>\<open>InfoCentralClient.validar_inventario\<close>: an exception of either query is re-raised.\<close>

definition no_hay_diferencias :: "row list \<Rightarrow> bool" where
  "no_hay_diferencias result =
     (case result of
        [] \<Rightarrow> False
      | r0 # rest \<Rightarrow> map_of r0 ''DiferenciasOrigenDestino''
                     = Some (SqlStr ''No hay diferencias contra el origen''))"

definition infocentral_validar_inventario :: "env \<Rightarrow> (bool \<times> string \<times> row list) prog" where
  "infocentral_validar_inventario env =
     bind (call (ExecuteSP InfoCentral ''[db_owner].[RevisarProcesodeInventarioFinalDiario]''
                   [PStr ''hayDiferencias'']) (sql_execute_sp env))
       (\<lambda>result.
          if no_hay_diferencias result then
            return (False, ''No hay diferencias contra el origen'', [])
          else
            bind (call (ExecuteSP InfoCentral
                          ''[db_owner].[RevisarProcesodeInventarioFinalDiario]''
                          [PStr ''obtenerAcciones'']) (sql_execute_sp env))
              (\<lambda>acciones. return (True, ''Hay diferencias contra el origen'', acciones)))"

text \<open>
  \<^verbatim>\<open>DEADWHClient.enviar_reportes\<close>: the stored procedure's exception becomes a
  failure pair.
\<close>

definition enviar_reportes :: "env \<Rightarrow> int \<Rightarrow> int \<Rightarrow> (bool \<times> string) prog" where
  "enviar_reportes env es_prueba reporte =
     try_except
       (bind (call (ExecuteSP DEADWH ''[dbo].[TiEnvioReportesTableauProc]''
                      [PInt es_prueba, PInt reporte]) (sql_execute_sp env))
          (\<lambda>rows. return (True, ''Reportes enviados exitosamente'')))
       (\<lambda>e. return (False, str_exn e))"

text \<open>
  \<^verbatim>\<open>SQLClient.execute_job\<close> as the workflow sees it: a pair, never an exception
  (its body is one \<^verbatim>\<open>try\<close>; the wait loop inside is modelled in the section on the
  poll loops).
\<close>

definition client_execute_job ::
  "env \<Rightarrow> sql_server \<Rightarrow> string \<Rightarrow> wf_state \<Rightarrow> (bool \<times> string) \<times> wf_state" where
  "client_execute_job env server job_name = call (ExecuteJob server job_name) (sql_execute_job env)"

definition ejecutar_job_inventario :: "env \<Rightarrow> wf_state \<Rightarrow> (bool \<times> string) \<times> wf_state" where
  "ejecutar_job_inventario env = client_execute_job env CubosOfi ''BI Inventario Chatarra 5:15 am''"

text \<open>
  \<^verbatim>\<open>with TableauClient() as tableau\<close>: \<^verbatim>\<open>connect\<close> swallows its own errors and
  \<^verbatim>\<open>disconnect\<close> signs out, on every exit of the block, only when connected.
\<close>

definition with_tableau :: "env \<Rightarrow> 'a prog \<Rightarrow> 'a prog" where
  "with_tableau env body s =
     (let (connected, s1) = call TableauSignIn (tableau_connect env) s;
          (r, s2) = body s1
      in (r, if connected then s2\<lparr>events := TableauSignOut # events s2\<rparr> else s2))"

section \<open>The operations of the steps\<close>

text \<open>\<^verbatim>\<open>ReportWorkflow._wrap_validacion\<close>.\<close>

definition wrap_validacion ::
  "env \<Rightarrow> bool \<times> string \<times> datetime option \<Rightarrow> bool \<times> string \<times> details option" where
  "wrap_validacion env r =
     (case r of (is_valid, message, last_updated) \<Rightarrow>
        (is_valid, message,
         Some (case last_updated of
                 None \<Rightarrow> []
               | Some t \<Rightarrow>
                   [(''last_updated_utc'', DStr (str_datetime env t)),
                    (''last_updated_local'', DStr (strftime_local env t)),
                    (''timezone'', DStr ''America/Monterrey (UTC-6)'')])))"

definition op_validar_extracto :: "env \<Rightarrow> (bool \<times> string \<times> details option) prog" where
  "op_validar_extracto env =
     bind (call ValidarExtracto (tableau_validar_extracto env))
       (\<lambda>r. return (wrap_validacion env r))"

definition op_refresh_extracto :: "env \<Rightarrow> (bool \<times> string \<times> details option) prog" where
  "op_refresh_extracto env =
     bind (call RefreshExtracto (tableau_refresh_extracto env))
       (\<lambda>(ok, msg). return (ok, msg, Some []))"

text \<open>\<^verbatim>\<open>ReportWorkflow._validar_inventario\<close>.\<close>

definition validar_inventario :: "env \<Rightarrow> (bool \<times> string \<times> details option) prog" where
  "validar_inventario env =
     bind (infocentral_validar_inventario env)
       (\<lambda>(hay_diferencias, msg, acciones).
          if \<not> hay_diferencias then return (True, msg, Some [])
          else return (False, msg,
                 Some [(''hay_diferencias'', DBool True), (''acciones'', DRows acciones)]))"

text \<open>
  \<^verbatim>\<open>accion.get(key, '')\<close>, the truth value of what it returns, and its rendering in an
  f-string.
\<close>

definition row_get :: "row \<Rightarrow> string \<Rightarrow> sqlval" where
  "row_get accion k = (case map_of accion k of None \<Rightarrow> SqlStr [] | Some v \<Rightarrow> v)"

fun truthy :: "sqlval \<Rightarrow> bool" where
  "truthy SqlNull = False"
| "truthy (SqlStr s) = (s \<noteq> [])"

fun str_sqlval :: "sqlval \<Rightarrow> string" where
  "str_sqlval SqlNull = ''None''"
| "str_sqlval (SqlStr s) = s"

text \<open>
  One \<^verbatim>\<open>if accionN:\<close> block of \<^verbatim>\<open>_ejecutar_jobs_correctivos\<close>, then the loop over
  the actions, then the method.
\<close>

definition run_job_if ::
  "env \<Rightarrow> sqlval \<Rightarrow> string list \<Rightarrow> wf_state \<Rightarrow> string list \<times> wf_state" where
  "run_job_if env accion_n errores s =
     (if truthy accion_n then
        (case client_execute_job env InfoCentral (str_sqlval accion_n) s of
           ((ok, msg), s1) \<Rightarrow>
             (if \<not> ok then errores @ [str_sqlval accion_n @ '': '' @ msg] else errores, s1))
      else (errores, s))"

fun jobs_loop :: "env \<Rightarrow> row list \<Rightarrow> string list \<Rightarrow> wf_state \<Rightarrow> string list \<times> wf_state" where
  "jobs_loop env [] errores s = (errores, s)"
| "jobs_loop env (accion # rest) errores s =
     (let accion1 = row_get accion ''Accion1'';
          accion2 = row_get accion ''Accion2'';
          (errores1, s1) = run_job_if env accion1 errores s;
          (errores2, s2) = run_job_if env accion2 errores1 s1
      in jobs_loop env rest errores2 s2)"

definition ejecutar_jobs_correctivos ::
  "env \<Rightarrow> row list \<Rightarrow> (bool \<times> string \<times> details option) prog" where
  "ejecutar_jobs_correctivos env acciones s =
     (let (errores, s1) = jobs_loop env acciones [] s
      in if errores \<noteq> [] then
           (Inr (False, ''Errores en jobs: '' @ join ''; '' errores, Some []), s1)
         else
           (Inr (True, str_nat (length acciones) @ '' ubicaciones corregidas'', Some []), s1))"

text \<open>
  \<^verbatim>\<open>result.detalles.get('hay_diferencias')\<close> as a condition, and what iterating over
  \<^verbatim>\<open>result.detalles.get('acciones', [])\<close> inside the corrective-jobs operation does:
  a list of rows is iterated, a value without rows gives no iteration, a boolean is not
  iterable and the elements of a non-empty string or file list have no \<^verbatim>\<open>get\<close>.
\<close>

fun truthy_det :: "detval option \<Rightarrow> bool" where
  "truthy_det None = False"
| "truthy_det (Some (DBool b)) = b"
| "truthy_det (Some (DStr s)) = (s \<noteq> [])"
| "truthy_det (Some (DRows rs)) = (rs \<noteq> [])"
| "truthy_det (Some (DFiles fs)) = (fs \<noteq> [])"

fun acciones_of :: "detval option \<Rightarrow> row list res" where
  "acciones_of None = Inr []"
| "acciones_of (Some (DRows rs)) = Inr rs"
| "acciones_of (Some (DBool b)) = Inl (Error ''bool object is not iterable'')"
| "acciones_of (Some (DStr s)) =
     (if s = [] then Inr [] else Inl (Error ''str object has no attribute get''))"
| "acciones_of (Some (DFiles fs)) =
     (if fs = [] then Inr [] else Inl (Error ''str object has no attribute get''))"

definition op_jobs_correctivos ::
  "env \<Rightarrow> detval option \<Rightarrow> (bool \<times> string \<times> details option) prog" where
  "op_jobs_correctivos env acciones =
     bind (\<lambda>s. (acciones_of acciones, s)) (\<lambda>rows. ejecutar_jobs_correctivos env rows)"

definition op_actualizar_cubo :: "env \<Rightarrow> (bool \<times> string \<times> details option) prog" where
  "op_actualizar_cubo env s =
     (case ejecutar_job_inventario env s of ((ok, msg), s1) \<Rightarrow> (Inr (ok, msg, Some []), s1))"

text \<open>
  \<^verbatim>\<open>ReportWorkflow._descargar_pdfs\<close>: clearing (or creating) the staging directory may
  raise, and so may the download.
\<close>

definition descargar_pdfs :: "env \<Rightarrow> (bool \<times> string \<times> details option) prog" where
  "descargar_pdfs env =
     bind (call LimpiarOrigen (fs_limpiar_origen env))
       (\<lambda>u. bind (call DescargarTodosReportes (tableau_descargar_todos_reportes env))
          (\<lambda>(ok, msg, archivos). return (ok, msg, Some [(''archivos'', DFiles archivos)])))"

text \<open>
  \<^verbatim>\<open>ReportWorkflow._copiar_archivos\<close>: clearing the destination and copying are one
  answer of the world (the copied names, or the exception); the method catches both
  kinds of exception.
\<close>

definition copiar_archivos :: "env \<Rightarrow> (bool \<times> string \<times> details option) prog" where
  "copiar_archivos env =
     try_except
       (bind (call DestinoExiste (fs_dest_exists env))
          (\<lambda>dest_ok.
             if \<not> dest_ok then
               return (False, ''Carpeta destino no accesible: '' @ pdf_dest env, Some [])
             else
               bind (call CopiarArchivos (fs_copiar env))
                 (\<lambda>archivos_copiados.
                    return (True, str_nat (length archivos_copiados) @ '' archivos copiados'',
                            Some [(''archivos'', DFiles archivos_copiados)]))))
       (\<lambda>e. case e of
               PermissionError m \<Rightarrow>
                 return (False, ''Sin permisos para escribir en '' @ pdf_dest env @ '': '' @ m,
                         Some [])
             | Error m \<Rightarrow> return (False, m, Some []))"

definition op_enviar_correos ::
  "env \<Rightarrow> int \<Rightarrow> int \<Rightarrow> (bool \<times> string \<times> details option) prog" where
  "op_enviar_correos env es_prueba reporte =
     bind (enviar_reportes env es_prueba reporte) (\<lambda>(ok, msg). return (ok, msg, Some []))"

section \<open>Escalation\<close>

text \<open>\<^verbatim>\<open>ReportWorkflow._handle_error\<close>.\<close>

definition handle_error :: "env \<Rightarrow> string \<Rightarrow> string \<Rightarrow> unit prog" where
  "handle_error env paso_fallido error s =
     (case crear_ticket_error env (''[AUTO] Error en Reportes MP: '' @ paso_fallido) error s of
        (Inl e, s1) \<Rightarrow> (Inl e, s1)
      | (Inr (ok, msg, ticket_key), s1) \<Rightarrow>
          (let s2 = (if ok then s1\<lparr>ticket_jira := ticket_key\<rparr> else s1)
           in case enviar_alerta_error env (''Error en: '' @ paso_fallido) error
                     (ticket_jira s2) s2 of
                (Inl e, s3) \<Rightarrow> (Inl e, s3)
              | (Inr sent, s3) \<Rightarrow> (Inr (), s3)))"

section \<open>The three flows\<close>

text \<open>\<^verbatim>\<open>ReportWorkflow.run_validation_only\<close>: no \<^verbatim>\<open>try\<close> around the flow.\<close>

definition run_validation_only :: "env \<Rightarrow> (bool \<times> string) prog" where
  "run_validation_only env s0 =
     (let s = s0\<lparr>start_time := Some (clock env (events s0)), steps := []\<rparr>
      in with_tableau env
           (bind (execute_step env ''Validar Extracto Tableau'' (op_validar_extracto env))
              (\<lambda>result.
                 if success result then return (True, mensaje result)
                 else
                   bind (execute_step env ''Refresh Extracto'' (op_refresh_extracto env))
                     (\<lambda>result.
                        if success result then
                          bind (execute_step env ''Revalidar Extracto''
                                  (op_validar_extracto env))
                            (\<lambda>result. return (success result, mensaje result))
                        else return (False, mensaje result)))) s)"

text \<open>
  The success tail shared by the send-only and the full flow: elapsed time, the summary
  mail, the verdict. \<open>prefix\<close> is the text before the elapsed seconds.
\<close>

definition exito :: "env \<Rightarrow> string \<Rightarrow> (bool \<times> string) prog" where
  "exito env prefix s =
     (case start_time s of
        None \<Rightarrow> (Inl (Error ''unsupported operand type(s) for -: float and NoneType''), s)
      | Some t0 \<Rightarrow>
          (let tiempo_total = clock env (events s) - t0
           in bind (enviar_resumen_proceso env True (steps s) tiempo_total)
                (\<lambda>sent. return (True, prefix @ fmt2 env tiempo_total @ ''s'')) s))"

text \<open>\<^verbatim>\<open>ReportWorkflow.run_send_only\<close>: the ticket identifier is not reset.\<close>

definition run_send_only :: "env \<Rightarrow> int \<Rightarrow> int \<Rightarrow> (bool \<times> string) prog" where
  "run_send_only env es_prueba reporte s0 =
     (let s = s0\<lparr>start_time := Some (clock env (events s0)), steps := []\<rparr>
      in try_except
           (bind (execute_step env ''Enviar Correos'' (op_enviar_correos env es_prueba reporte))
              (\<lambda>result.
                 if \<not> success result then
                   bind (handle_error env ''Envio de Correos'' (mensaje result))
                     (\<lambda>u. return (False, mensaje result))
                 else exito env ''Correos enviados exitosamente en ''))
           (\<lambda>e. bind (handle_error env ''Error Inesperado'' (str_exn e))
                  (\<lambda>u. return (False, str_exn e))) s)"

text \<open>
  The gates of \<^verbatim>\<open>ReportWorkflow.run_full\<close>, one definition per numbered block of the
  source. A gate answers \<open>Some verdict\<close> when the source returns from inside the block
  and \<open>None\<close> when control falls through to the next block.
\<close>

definition paso1_extracto :: "env \<Rightarrow> (bool \<times> string) option prog" where
  "paso1_extracto env =
     with_tableau env
       (bind (execute_step env ''1. Validar Extracto Tableau'' (op_validar_extracto env))
          (\<lambda>result.
             if \<not> success result then
               bind (execute_step env ''1.1 Refresh Extracto'' (op_refresh_extracto env))
                 (\<lambda>result.
                    if \<not> success result then
                      bind (handle_error env ''Refresh de Extracto'' (mensaje result))
                        (\<lambda>u. return (Some (False, ''Error en extracto: '' @ mensaje result)))
                    else
                      bind (execute_step env ''1.2 Revalidar Extracto''
                              (op_validar_extracto env))
                        (\<lambda>result.
                           if \<not> success result then
                             bind (handle_error env ''Validacion post-refresh''
                                     (mensaje result))
                               (\<lambda>u. return (Some (False,
                                      ''Extracto sigue desactualizado: '' @ mensaje result)))
                           else return None))
             else return None))"

definition paso2_inventario :: "env \<Rightarrow> (bool \<times> string) option prog" where
  "paso2_inventario env =
     bind (execute_step env ''2. Validar Inventario SQL'' (validar_inventario env))
       (\<lambda>result.
          if \<not> success result \<and> truthy_det (map_of (detalles result) ''hay_diferencias'') then
            bind (execute_step env ''2.1 Ejecutar Jobs Correctivos''
                    (op_jobs_correctivos env (map_of (detalles result) ''acciones'')))
              (\<lambda>result.
                 if \<not> success result then
                   bind (handle_error env ''Jobs Correctivos'' (mensaje result))
                     (\<lambda>u. return (Some (False,
                            ''Error en jobs correctivos: '' @ mensaje result)))
                 else
                   bind (execute_step env ''2.2 Actualizar Cubo'' (op_actualizar_cubo env))
                     (\<lambda>result.
                        if \<not> success result then
                          bind (handle_error env ''Actualizacion de Cubo'' (mensaje result))
                            (\<lambda>u. return (Some (False,
                                   ''Error actualizando cubo: '' @ mensaje result)))
                        else return None))
          else return None)"

definition paso3_descargar :: "env \<Rightarrow> (bool \<times> string) option prog" where
  "paso3_descargar env =
     with_tableau env
       (bind (execute_step env ''3. Descargar PDFs'' (descargar_pdfs env))
          (\<lambda>result.
             if \<not> success result then
               bind (handle_error env ''Descarga de PDFs'' (mensaje result))
                 (\<lambda>u. return (Some (False, ''Error descargando PDFs: '' @ mensaje result)))
             else return None))"

definition paso4_copiar :: "env \<Rightarrow> (bool \<times> string) option prog" where
  "paso4_copiar env =
     bind (execute_step env ''4. Copiar a DEADWH'' (copiar_archivos env))
       (\<lambda>result.
          if \<not> success result then
            bind (handle_error env ''Copia de Archivos'' (mensaje result))
              (\<lambda>u. return (Some (False, ''Error copiando archivos: '' @ mensaje result)))
          else return None)"

definition paso5_enviar :: "env \<Rightarrow> (bool \<times> string) option prog" where
  "paso5_enviar env =
     bind (execute_step env ''5. Enviar Correos'' (op_enviar_correos env 0 0))
       (\<lambda>result.
          if \<not> success result then
            bind (handle_error env ''Envio de Correos'' (mensaje result))
              (\<lambda>u. return (Some (False, ''Error enviando correos: '' @ mensaje result)))
          else return None)"

text \<open>A block followed by the rest of the function.\<close>

definition then_continue ::
  "(bool \<times> string) option prog \<Rightarrow> (bool \<times> string) prog \<Rightarrow> (bool \<times> string) prog" where
  "then_continue gate rest s =
     (case gate s of
        (Inl e, s1) \<Rightarrow> (Inl e, s1)
      | (Inr (Some verdict), s1) \<Rightarrow> (Inr verdict, s1)
      | (Inr None, s1) \<Rightarrow> rest s1)"

definition run_full_try :: "env \<Rightarrow> (bool \<times> string) prog" where
  "run_full_try env =
     then_continue (paso1_extracto env)
       (then_continue (paso2_inventario env)
          (then_continue (paso3_descargar env)
             (then_continue (paso4_copiar env)
                (then_continue (paso5_enviar env)
                   (exito env ''Proceso completado en '')))))"

text \<open>\<^verbatim>\<open>ReportWorkflow.run_full\<close>: the reset, the guarded body, the handler.\<close>

definition run_full :: "env \<Rightarrow> (bool \<times> string) prog" where
  "run_full env s0 =
     (let s = s0\<lparr>start_time := Some (clock env (events s0)), steps := [],
                 ticket_jira := None\<rparr>
      in try_except (run_full_try env)
           (\<lambda>e. bind (handle_error env ''Error Inesperado'' (str_exn e))
                  (\<lambda>u. return (False, str_exn e))) s)"

section \<open>The poll loops\<close>





text \<open>
  \<^verbatim>\<open>SQLClient.execute_job\<close>. The interval is a parameter of the method, so the loop
  is a partial function: \<open>None\<close> is a wait that never ends. A negative interval makes
  \<^verbatim>\<open>time.sleep\<close> raise. \<open>polls k\<close> is the answer of the k-th status query.
\<close>

definition job_status :: "row list \<Rightarrow> sqlval option" where
  "job_status result =
     (case result of
        [] \<Rightarrow> None
      | r0 # rest \<Rightarrow>
          Some (case map_of r0 ''job_status'' of None \<Rightarrow> SqlStr ''Unknown'' | Some v \<Rightarrow> v))"

partial_function (option) job_wait ::
  "int \<Rightarrow> int \<Rightarrow> (nat \<Rightarrow> row list res) \<Rightarrow> nat \<Rightarrow> int \<Rightarrow> (bool \<times> string) res option" where
  "job_wait check_interval max_wait polls k total_waited =
     (if total_waited < max_wait then
        (if check_interval < 0 then Some (Inl (Error ''sleep length must be non-negative''))
         else
           (case polls k of
              Inl e \<Rightarrow> Some (Inl e)
            | Inr result \<Rightarrow>
                if job_status result = Some (SqlStr ''Completed'')
                then Some (Inr (True, ''Job completado exitosamente''))
                else job_wait check_interval max_wait polls (Suc k)
                       (total_waited + check_interval)))
      else Some (Inr (False, ''Timeout esperando job despues de '' @ str_int max_wait @ ''s'')))"

definition execute_job ::
  "unit res \<Rightarrow> (nat \<Rightarrow> row list res) \<Rightarrow> bool \<Rightarrow> int \<Rightarrow> int \<Rightarrow> (bool \<times> string) option" where
  "execute_job started polls wait_for_completion check_interval max_wait =
     (case started of
        Inl e \<Rightarrow> Some (False, str_exn e)
      | Inr u \<Rightarrow>
          if \<not> wait_for_completion then Some (True, ''Job iniciado (sin esperar)'')
          else
            (case job_wait check_interval max_wait polls 0 0 of
               None \<Rightarrow> None
             | Some (Inl e) \<Rightarrow> Some (False, str_exn e)
             | Some (Inr verdict) \<Rightarrow> Some verdict))"

section \<open>Vocabulary of the properties\<close>


definition waiting :: "row list res \<Rightarrow> bool" where
  "waiting q = (case q of Inl e \<Rightarrow> False | Inr result \<Rightarrow> job_status result \<noteq> Some (SqlStr ''Completed''))"

text \<open>
  Escalation as the events show it: the ticket attempts and the error alerts made so far.
\<close>

fun is_ticket :: "event \<Rightarrow> bool" where
  "is_ticket (CrearTicketError t d) = True"
| "is_ticket ev = False"

fun is_alert :: "event \<Rightarrow> bool" where
  "is_alert (AlertaError t m k) = True"
| "is_alert ev = False"

definition tickets :: "wf_state \<Rightarrow> nat" where
  "tickets s = length (filter is_ticket (events s))"

definition alerts :: "wf_state \<Rightarrow> nat" where
  "alerts s = length (filter is_alert (events s))"

text \<open>
  A failed step other than the two whose failure the full flow answers with a further
  step: the initial extract validation and the inventory validation.
\<close>

definition hard_failed :: "StepResult \<Rightarrow> bool" where
  "hard_failed x \<longleftrightarrow> \<not> success x \<and> nombre x \<noteq> ''1. Validar Extracto Tableau''
      \<and> nombre x \<noteq> ''2. Validar Inventario SQL''"

text \<open>
  Two ways a piece of a flow can relate the state before it to the state after it: it
  made no ticket attempt and sent no alert and left the ticket identifier alone, or it
  escalated exactly once. Neither touches the start time.
\<close>

definition quiet :: "wf_state \<Rightarrow> wf_state \<Rightarrow> bool" where
  "quiet s s' \<longleftrightarrow> ticket_jira s' = ticket_jira s \<and> tickets s' = tickets s \<and> alerts s' = alerts s
     \<and> start_time s' = start_time s"

definition escalated :: "wf_state \<Rightarrow> wf_state \<Rightarrow> bool" where
  "escalated s s' \<longleftrightarrow> tickets s' = Suc (tickets s) \<and> alerts s' = Suc (alerts s)
     \<and> start_time s' = start_time s"

text \<open>
  An operation of a step leaves the step list alone and is quiet; a piece of code only
  escalates and returns a failure verdict.
\<close>

definition op_frame :: "'a prog \<Rightarrow> bool" where
  "op_frame func \<longleftrightarrow> (\<forall>s r s'. func s = (r, s') \<longrightarrow> quiet s s' \<and> steps s' = steps s)"

definition escalation_only :: "(bool \<times> string) option prog \<Rightarrow> bool" where
  "escalation_only p \<longleftrightarrow>
     (\<forall>s r s'. p s = (r, s') \<longrightarrow>
        steps s' = steps s \<and> escalated s s' \<and> (\<exists>m. r = Inr (Some (False, m))))"

text \<open>
  What a gate, and what the rest of the full flow from some gate on, does to the record of
  the run: it appends steps with names from \<open>N\<close>; no step but the last appended can be a
  hard failure; falling through or raising is quiet, and falling through leaves no hard
  failure behind; a verdict returned from inside a gate is a failure after exactly one
  escalation.
\<close>

definition gate_spec :: "string set \<Rightarrow> (bool \<times> string) option prog \<Rightarrow> bool" where
  "gate_spec N g \<longleftrightarrow>
     (\<forall>s r s'. g s = (r, s') \<longrightarrow>
        (\<exists>added. steps s' = steps s @ added \<and> (\<forall>x\<in>set added. nombre x \<in> N) \<and>
           (\<forall>x\<in>set (butlast added). \<not> hard_failed x) \<and>
           (case r of
              Inr None \<Rightarrow> quiet s s' \<and> (\<forall>x\<in>set added. \<not> hard_failed x)
            | Inr (Some v) \<Rightarrow> \<not> fst v \<and> escalated s s'
            | Inl e \<Rightarrow> quiet s s')))"

definition run_spec :: "string set \<Rightarrow> (bool \<times> string) prog \<Rightarrow> bool" where
  "run_spec N p \<longleftrightarrow>
     (\<forall>s r s'. p s = (r, s') \<longrightarrow>
        (\<exists>added. steps s' = steps s @ added \<and> (\<forall>x\<in>set added. nombre x \<in> N) \<and>
           (\<forall>x\<in>set (butlast added). \<not> hard_failed x) \<and>
           (case r of
              Inr v \<Rightarrow> (if fst v then quiet s s' \<and> (\<forall>x\<in>set added. \<not> hard_failed x)
                        else escalated s s')
            | Inl e \<Rightarrow> quiet s s')))"

text \<open>The step names of the three parts of the full flow.\<close>

definition names1 :: "string set" where
  "names1 = {''1. Validar Extracto Tableau'', ''1.1 Refresh Extracto'', ''1.2 Revalidar Extracto''}"

definition names2 :: "string set" where
  "names2 = {''2.1 Ejecutar Jobs Correctivos'', ''2.2 Actualizar Cubo''}"

definition names3 :: "string set" where
  "names3 = {''3. Descargar PDFs'', ''4. Copiar a DEADWH'', ''5. Enviar Correos''}"

definition all_names :: "string set" where
  "all_names = names1 \<union> (insert ''2. Validar Inventario SQL'' names2 \<union> names3)"

text \<open>
  The events the validation-only flow may add, and the rest: ticket attempts, mails,
  database calls and file operations.
\<close>

fun validation_event :: "event \<Rightarrow> bool" where
  "validation_event TableauSignIn = True"
| "validation_event TableauSignOut = True"
| "validation_event ValidarExtracto = True"
| "validation_event RefreshExtracto = True"
| "validation_event (StepComplete x) = True"
| "validation_event ev = False"

definition other_events :: "wf_state \<Rightarrow> event list" where
  "other_events s = filter (\<lambda>ev. \<not> validation_event ev) (events s)"

definition keeps :: "(wf_state \<Rightarrow> 'b) \<Rightarrow> 'a prog \<Rightarrow> bool" where
  "keeps f p \<longleftrightarrow> (\<forall>s r s'. p s = (r, s') \<longrightarrow> f s' = f s)"

definition escalation_view :: "wf_state \<Rightarrow> string option \<times> event list" where
  "escalation_view s = (ticket_jira s, other_events s)"

text \<open>
  The tracker never yields a ticket: its settings are incomplete, or every attempt to
  create an issue raises.
\<close>

definition ticket_fails :: "env \<Rightarrow> bool" where
  "ticket_fails env \<longleftrightarrow>
     validate_jira env \<noteq> [] \<or> (\<forall>l. \<exists>e. jira_create_issue env l = Inl e)"

text \<open>
  The corrective-jobs step as the specification words it: the jobs named by the actions,
  primary before secondary and actions in list order; every one of them run, whatever the
  earlier ones answered; the failures collected afterwards.
\<close>

definition jobs_of_accion :: "row \<Rightarrow> string list" where
  "jobs_of_accion accion =
     (if truthy (row_get accion ''Accion1'') then [str_sqlval (row_get accion ''Accion1'')] else []) @
     (if truthy (row_get accion ''Accion2'') then [str_sqlval (row_get accion ''Accion2'')] else [])"

definition planned_jobs :: "row list \<Rightarrow> string list" where
  "planned_jobs acciones = concat (map jobs_of_accion acciones)"

fun run_all :: "env \<Rightarrow> string list \<Rightarrow> wf_state \<Rightarrow> (string \<times> bool \<times> string) list \<times> wf_state" where
  "run_all env [] s = ([], s)"
| "run_all env (j # js) s =
     (case client_execute_job env InfoCentral j s of
        ((ok, msg), s1) \<Rightarrow>
          (case run_all env js s1 of (rs, s2) \<Rightarrow> ((j, ok, msg) # rs, s2)))"

definition job_failures :: "(string \<times> bool \<times> string) list \<Rightarrow> string list" where
  "job_failures rs = map (\<lambda>(j, ok, msg). j @ '': '' @ msg) (filter (\<lambda>(j, ok, msg). \<not> ok) rs)"

text \<open>The steps recorded after the first step of a given name.\<close>

definition steps_after :: "string \<Rightarrow> StepResult list \<Rightarrow> StepResult list" where
  "steps_after nom xs = tl (dropWhile (\<lambda>y. nombre y \<noteq> nom) xs)"

text \<open>
  What the escalation handler leaves in \<^verbatim>\<open>ticket_jira\<close> after a ticket attempt, given the
  identifier stored before and the events up to the attempt; and the identifier that the
  ticket attempts among the events \<open>new\<close>, made after the events \<open>old\<close>, leave stored
  when nothing else writes it.
\<close>

definition ticket_after_attempt :: "env \<Rightarrow> string option \<Rightarrow> event list \<Rightarrow> string option" where
  "ticket_after_attempt env stored l =
     (if validate_jira env = [] then
        (case jira_create_issue env l of Inr issue_key \<Rightarrow> Some issue_key | Inl e \<Rightarrow> stored)
      else stored)"

fun replay_tickets :: "env \<Rightarrow> string option \<Rightarrow> event list \<Rightarrow> event list \<Rightarrow> string option" where
  "replay_tickets env t0 old [] = t0"
| "replay_tickets env t0 old (ev # new) =
     (if is_ticket ev
      then ticket_after_attempt env (replay_tickets env t0 old new) (ev # new @ old)
      else replay_tickets env t0 old new)"

text \<open>
  A later state follows an earlier one when its events extend the earlier ones and its
  ticket identifier is the replay of the added events; a computation tracks the ticket
  identifier when every state it ends in follows the state it started from.
\<close>

definition follows :: "env \<Rightarrow> wf_state \<Rightarrow> wf_state \<Rightarrow> bool" where
  "follows env s s' \<longleftrightarrow>
     (\<exists>new. events s' = new @ events s \<and>
            ticket_jira s' = replay_tickets env (ticket_jira s) (events s) new)"

definition tracks :: "env \<Rightarrow> 'a prog \<Rightarrow> bool" where
  "tracks env p \<longleftrightarrow> (\<forall>s r s'. p s = (r, s') \<longrightarrow> follows env s s')"

section \<open>Concrete environments\<close>

text \<open>
  A world in which every collaborator succeeds, variations of it in which one of them
  fails, and two workflow instances: a fresh one and one that kept a ticket identifier
  from an earlier run.
\<close>

definition env_ok :: env where
  "env_ok =
     \<lparr>jira_user = ''bot'', jira_api_token = ''secret'',
      pdf_dest = ''//DEADWH/ReportesMateriasPrimas/'',
      clock = (\<lambda>l. 0), fmt2 = (\<lambda>x. ''0.00''),
      str_datetime = (\<lambda>t. ''2024-01-01 06:00:00+00:00''),
      strftime_local = (\<lambda>t. ''2024-01-01 00:00:00 UTC-06:00''),
      on_step_complete = (\<lambda>l. Inr ()),
      tableau_connect = (\<lambda>l. True),
      tableau_validar_extracto = (\<lambda>l. Inr (True, ''Extracto valido: 2.00h'', Some 0)),
      tableau_refresh_extracto = (\<lambda>l. Inr (True, ''Refresh completado'')),
      tableau_descargar_todos_reportes = (\<lambda>l. Inr (True, ''1 reportes descargados'', [''a.pdf''])),
      sql_execute_sp = (\<lambda>l. Inr [[(''DiferenciasOrigenDestino'',
                                     SqlStr ''No hay diferencias contra el origen'')]]),
      sql_execute_job = (\<lambda>l. (True, ''Job completado exitosamente'')),
      fs_limpiar_origen = (\<lambda>l. Inr ()),
      fs_dest_exists = (\<lambda>l. Inr True),
      fs_copiar = (\<lambda>l. Inr [''a.pdf'']),
      jira_create_issue = (\<lambda>l. Inr ''DDF-1''),
      dbmail_send = (\<lambda>l. Inr ())\<rparr>"

definition s_init :: wf_state where
  "s_init = \<lparr>steps = [], start_time = None, ticket_jira = None, events = []\<rparr>"

definition sp_diferencias :: "event list \<Rightarrow> row list res" where
  "sp_diferencias l =
     (case l of
        ExecuteSP InfoCentral sp [PStr q] # rest \<Rightarrow>
          if q = ''hayDiferencias''
          then Inr [[(''DiferenciasOrigenDestino'', SqlStr ''Hay diferencias contra el origen'')]]
          else Inr [[(''NombreUbicacion'', SqlStr ''Patio 1''),
                     (''Accion1'', SqlStr ''Job Patio 1''), (''Accion2'', SqlNull)]]
      | _ \<Rightarrow> Inr [])"

definition env_diferencias :: env where
  "env_diferencias = env_ok\<lparr>sql_execute_sp := sp_diferencias\<rparr>"

definition sp_infocentral_down :: "event list \<Rightarrow> row list res" where
  "sp_infocentral_down l =
     (case l of
        ExecuteSP InfoCentral sp ps # rest \<Rightarrow> Inl (Error ''connection refused'')
      | _ \<Rightarrow> Inr [])"

definition env_infocentral_down :: env where
  "env_infocentral_down = env_ok\<lparr>sql_execute_sp := sp_infocentral_down\<rparr>"

definition env_observer_raises :: env where
  "env_observer_raises = env_ok\<lparr>on_step_complete := (\<lambda>l. Inl (Error ''observer failed''))\<rparr>"

definition env_descarga_falla :: env where
  "env_descarga_falla =
     env_ok\<lparr>tableau_descargar_todos_reportes :=
              (\<lambda>l. Inr (False, ''Errores en 1 reportes: Reporte Inventario Diario: timeout'', []))\<rparr>"

definition env_escalation_down :: env where
  "env_escalation_down =
     env_ok\<lparr>jira_create_issue := (\<lambda>l. Inl (Error ''jira down'')),
            dbmail_send := (\<lambda>l. Inl (Error ''mail down''))\<rparr>"

definition env_refresh_falla :: env where
  "env_refresh_falla =
     env_ok\<lparr>tableau_validar_extracto :=
              (\<lambda>l. Inr (False, ''Extracto desactualizado: 30.00h (maximo: 24h)'', Some 0)),
            tableau_refresh_extracto := (\<lambda>l. Inr (False, ''Refresh cancelado''))\<rparr>"

definition env_envio_falla :: env where
  "env_envio_falla =
     env_ok\<lparr>sql_execute_sp := (\<lambda>l. Inl (Error ''SP failed'')),
            jira_create_issue := (\<lambda>l. Inl (Error ''jira down''))\<rparr>"

definition s_stale :: wf_state where
  "s_stale = \<lparr>steps = [], start_time = None, ticket_jira = Some ''DDF-7'', events = []\<rparr>"

definition job_a1_falla :: "event list \<Rightarrow> bool \<times> string" where
  "job_a1_falla l =
     (case l of
        ExecuteJob srv j # rest \<Rightarrow>
          if j = ''A1'' then (False, ''Timeout esperando job despues de 600s'')
          else (True, ''Job completado exitosamente'')
      | _ \<Rightarrow> (True, ''Job completado exitosamente''))"

definition env_job_falla :: env where
  "env_job_falla = env_ok\<lparr>sql_execute_job := job_a1_falla\<rparr>"

definition acciones_ab :: "row list" where
  "acciones_ab =
     [[(''NombreUbicacion'', SqlStr ''A''), (''Accion1'', SqlStr ''A1''), (''Accion2'', SqlStr ''A2'')],
      [(''NombreUbicacion'', SqlStr ''B''), (''Accion1'', SqlStr ''B1''), (''Accion2'', SqlNull)]]"






text \<open>The definitions to unfold when a flow is run on a concrete environment.\<close>

lemmas flow_defs =
  run_full_def run_full_try_def run_send_only_def run_validation_only_def then_continue_def
  paso1_extracto_def paso2_inventario_def paso3_descargar_def paso4_copiar_def paso5_enviar_def
  exito_def handle_error_def crear_ticket_error_def validate_jira_def send_via_dbmail_def
  enviar_alerta_error_def enviar_resumen_proceso_def with_tableau_def execute_step_def
  op_validar_extracto_def op_refresh_extracto_def wrap_validacion_def validar_inventario_def
  infocentral_validar_inventario_def no_hay_diferencias_def op_jobs_correctivos_def
  ejecutar_jobs_correctivos_def run_job_if_def row_get_def client_execute_job_def
  op_actualizar_cubo_def ejecutar_job_inventario_def descargar_pdfs_def copiar_archivos_def
  op_enviar_correos_def enviar_reportes_def or_empty_def
  bind_def return_def try_except_def call_def Let_def

lemmas env_defs = env_ok_def s_init_def env_diferencias_def sp_diferencias_def
  env_infocentral_down_def sp_infocentral_down_def env_observer_raises_def
  env_descarga_falla_def env_escalation_down_def env_refresh_falla_def env_envio_falla_def
  s_stale_def job_a1_falla_def env_job_falla_def acciones_ab_def

section \<open>Properties\<close>

subsection \<open>The step-execution wrapper\<close>

text \<open>
  C2. For every step name and every operation: when the operation raises \<open>e\<close> the
  recorded StepResult is a failure whose message is \<open>str e\<close> and whose details are
  empty; when it returns a triple, success and message are recorded unchanged and the
  details are the returned ones, or empty when they are falsy. In both cases the result
  is appended to the step list left by the operation, and the wrapper hands the result
  back: the only exception that can leave it is one raised by the observer callback,
  never the operation's.
\<close>

theorem execute_step_absorbs:
  "\<exists>r s'. execute_step env nom func s = (r, s') \<and>
     steps s' = steps (snd (func s)) @
       [\<lparr>nombre = nom,
         success = (case fst (func s) of Inl e \<Rightarrow> False | Inr (ok, msg, det) \<Rightarrow> ok),
         mensaje = (case fst (func s) of Inl e \<Rightarrow> str_exn e | Inr (ok, msg, det) \<Rightarrow> msg),
         duracion = clock env (events (snd (func s))) - clock env (events s),
         detalles = (case fst (func s) of Inl e \<Rightarrow> []
                      | Inr (ok, msg, det) \<Rightarrow> (case det of None \<Rightarrow> [] | Some d \<Rightarrow> d))\<rparr>] \<and>
     (case on_step_complete env (events s') of
        Inl c \<Rightarrow> r = Inl c
      | Inr u \<Rightarrow> r = Inr (last (steps s')))"
  by (auto simp: execute_step_def call_def Let_def or_empty_def
           split: prod.splits sum.splits option.splits)

theorem execute_step_absorbs_witness:
  "fst (execute_step env_ok ''Paso'' (\<lambda>s. (Inl (Error ''boom''), s)) s_init)
     = Inr \<lparr>nombre = ''Paso'', success = False, mensaje = ''boom'', duracion = 0, detalles = []\<rparr> \<and>
   steps (snd (execute_step env_ok ''Paso'' (\<lambda>s. (Inl (Error ''boom''), s)) s_init))
     = [\<lparr>nombre = ''Paso'', success = False, mensaje = ''boom'', duracion = 0, detalles = []\<rparr>]"
  using execute_step_absorbs[of env_ok "''Paso''" "\<lambda>s. (Inl (Error ''boom''), s)" s_init]
  by (auto simp: env_defs)

subsection \<open>The poll loops\<close>













text \<open>
  What the job wait does with a status other than \<^verbatim>\<open>Completed\<close>, and with a
  check interval of zero.
\<close>

lemma job_wait_zero_interval:
  assumes "job_wait ci mx qs k tw = Some v"
  shows "\<not> (ci = 0 \<and> tw < mx \<and> (\<forall>j. waiting (qs j)))"
proof (rule job_wait.raw_induct
    [where P = "\<lambda>ci mx qs k tw v. \<not> (ci = 0 \<and> tw < mx \<and> (\<forall>j. waiting (qs j)))", OF _ assms])
  fix jw :: "int \<Rightarrow> int \<Rightarrow> (nat \<Rightarrow> row list res) \<Rightarrow> nat \<Rightarrow> int \<Rightarrow> (bool \<times> string) res option"
  fix ci mx :: int and qs :: "nat \<Rightarrow> row list res" and k :: nat and tw :: int
    and v :: "(bool \<times> string) res"
  assume ih: "\<And>ci mx qs k tw y. jw ci mx qs k tw = Some y \<Longrightarrow>
                \<not> (ci = 0 \<and> tw < mx \<and> (\<forall>j. waiting (qs j)))"
  assume eq: "(if tw < mx
      then if ci < 0
           then Some (Inl (Error ''sleep length must be non-negative''))
           else case qs k of Inl e \<Rightarrow> Some (Inl e)
                | Inr result \<Rightarrow>
                    if job_status result = Some (SqlStr ''Completed'')
                    then Some (Inr (True, ''Job completado exitosamente''))
                    else jw ci mx qs (Suc k) (tw + ci)
      else Some (Inr (False, ''Timeout esperando job despues de '' @ str_int mx @ ''s''))) =
     Some v"
  show "\<not> (ci = 0 \<and> tw < mx \<and> (\<forall>j. waiting (qs j)))"
  proof
    assume h: "ci = 0 \<and> tw < mx \<and> (\<forall>j. waiting (qs j))"
    then have w: "waiting (qs k)" by blast
    then obtain result where r: "qs k = Inr result"
      "job_status result \<noteq> Some (SqlStr ''Completed'')"
      by (auto simp: waiting_def split: sum.splits)
    have "jw ci mx qs (Suc k) (tw + ci) = Some v"
      using eq h r by simp
    from ih[OF this] h show False by simp
  qed
qed

lemma job_wait_zero_interval_never_returns:
  assumes "0 < mx" and "\<forall>j. waiting (qs j)"
  shows "execute_job (Inr ()) qs True 0 mx = None"
proof -
  have "job_wait 0 mx qs 0 0 = None"
  proof (cases "job_wait 0 mx qs 0 0")
    case (Some v)
    from job_wait_zero_interval[OF this] assms show ?thesis by simp
  qed simp
  then show ?thesis by (simp add: execute_job_def)
qed





subsection \<open>The corrective jobs\<close>

lemma run_all_append:
  "run_all env (xs @ ys) s =
     (case run_all env xs s of (r1, s1) \<Rightarrow>
        (case run_all env ys s1 of (r2, s2) \<Rightarrow> (r1 @ r2, s2)))"
  by (induction xs arbitrary: s) (auto split: prod.splits)

lemma job_failures_append: "job_failures (xs @ ys) = job_failures xs @ job_failures ys"
  by (simp add: job_failures_def)

lemma run_job_if_run_all:
  "run_job_if env a errs s =
     (case run_all env (if truthy a then [str_sqlval a] else []) s of
        (rs, s') \<Rightarrow> (errs @ job_failures rs, s'))"
  by (auto simp: run_job_if_def job_failures_def split: prod.splits)

lemma jobs_loop_run_all:
  "jobs_loop env acciones errs s =
     (case run_all env (planned_jobs acciones) s of (rs, s') \<Rightarrow> (errs @ job_failures rs, s'))"
proof (induction acciones arbitrary: errs s)
  case Nil
  then show ?case by (simp add: planned_jobs_def job_failures_def)
next
  case (Cons a rest)
  define j1 where
    "j1 = (if truthy (row_get a ''Accion1'') then [str_sqlval (row_get a ''Accion1'')] else [])"
  define j2 where
    "j2 = (if truthy (row_get a ''Accion2'') then [str_sqlval (row_get a ''Accion2'')] else [])"
  obtain r1 s1 where a1: "run_all env j1 s = (r1, s1)" by (cases "run_all env j1 s")
  obtain r2 s2 where a2: "run_all env j2 s1 = (r2, s2)" by (cases "run_all env j2 s1")
  obtain r3 s3 where a3: "run_all env (planned_jobs rest) s2 = (r3, s3)"
    by (cases "run_all env (planned_jobs rest) s2")
  have pj: "planned_jobs (a # rest) = j1 @ j2 @ planned_jobs rest"
    by (simp add: planned_jobs_def jobs_of_accion_def j1_def j2_def)
  have rhs: "run_all env (planned_jobs (a # rest)) s = (r1 @ r2 @ r3, s3)"
    by (simp add: pj run_all_append a1 a2 a3)
  have l1: "run_job_if env (row_get a ''Accion1'') errs s = (errs @ job_failures r1, s1)"
    using a1 by (simp add: run_job_if_run_all j1_def)
  have l2: "run_job_if env (row_get a ''Accion2'') (errs @ job_failures r1) s1
              = ((errs @ job_failures r1) @ job_failures r2, s2)"
    using a2 by (simp add: run_job_if_run_all j2_def)
  have "jobs_loop env (a # rest) errs s
          = jobs_loop env rest ((errs @ job_failures r1) @ job_failures r2) s2"
    using l1 l2 by (simp add: Let_def)
  also have "\<dots> = (((errs @ job_failures r1) @ job_failures r2) @ job_failures r3, s3)"
    by (simp add: Cons.IH a3)
  finally show ?case by (simp add: rhs job_failures_append)
qed

lemma run_all_events:
  "run_all env js s = (rs, s') \<Longrightarrow>
     events s' = rev (map (ExecuteJob InfoCentral) js) @ events s \<and> map fst rs = js"
proof (induction js arbitrary: s rs)
  case Nil
  then show ?case by simp
next
  case (Cons j js)
  then show ?case
    by (auto simp: client_execute_job_def call_def Let_def split: prod.splits)
qed

lemma corrective_jobs_refine:
  "ejecutar_jobs_correctivos env acciones s =
     (case run_all env (planned_jobs acciones) s of
        (rs, s') \<Rightarrow>
          (Inr (job_failures rs = [],
                (if job_failures rs = [] then str_nat (length acciones) @ '' ubicaciones corregidas''
                 else ''Errores en jobs: '' @ join ''; '' (job_failures rs)),
                Some []), s'))"
  by (simp add: ejecutar_jobs_correctivos_def jobs_loop_run_all split: prod.splits)

lemma corrective_jobs_events:
  "events (snd (ejecutar_jobs_correctivos env acciones s)) =
     rev (map (ExecuteJob InfoCentral) (planned_jobs acciones)) @ events s"
proof -
  obtain rs s' where r: "run_all env (planned_jobs acciones) s = (rs, s')"
    by (cases "run_all env (planned_jobs acciones) s")
  show ?thesis using run_all_events[OF r] r by (simp add: corrective_jobs_refine)
qed

text \<open>
  C3. For every list of corrective actions, the corrective-jobs step runs the jobs named by
  the actions, the primary job of an action before its secondary job and the actions in
  list order, every one of them whatever the earlier ones answered; it succeeds exactly
  when no job failed, and on failure its message joins the texts of all failed jobs.
\<close>

theorem corrective_jobs_attempt_all:
  "ejecutar_jobs_correctivos env acciones s =
     (case run_all env (planned_jobs acciones) s of
        (rs, s') \<Rightarrow>
          (Inr (job_failures rs = [],
                (if job_failures rs = [] then str_nat (length acciones) @ '' ubicaciones corregidas''
                 else ''Errores en jobs: '' @ join ''; '' (job_failures rs)),
                Some []), s')) \<and>
   events (snd (ejecutar_jobs_correctivos env acciones s)) =
     rev (map (ExecuteJob InfoCentral) (planned_jobs acciones)) @ events s"
  using corrective_jobs_refine corrective_jobs_events by blast

theorem corrective_jobs_attempt_all_witness:
  "fst (ejecutar_jobs_correctivos env_job_falla acciones_ab s_init)
     = Inr (False, ''Errores en jobs: A1: Timeout esperando job despues de 600s'', Some []) \<and>
   events (snd (ejecutar_jobs_correctivos env_job_falla acciones_ab s_init))
     = [ExecuteJob InfoCentral ''B1'', ExecuteJob InfoCentral ''A2'', ExecuteJob InfoCentral ''A1'']"
  using corrective_jobs_attempt_all[of env_job_falla acciones_ab s_init]
  by (simp add: env_defs planned_jobs_def jobs_of_accion_def row_get_def job_failures_def
        client_execute_job_def call_def Let_def)

subsection \<open>The operations of the steps leave the record of the run alone\<close>

lemma quiet_refl [simp]: "quiet s s"
  by (simp add: quiet_def)

lemma quiet_trans: "quiet a b \<Longrightarrow> quiet b c \<Longrightarrow> quiet a c"
  by (simp add: quiet_def)

lemma quiet_events [simp]:
  "\<not> is_ticket ev \<Longrightarrow> \<not> is_alert ev \<Longrightarrow> quiet s (s'\<lparr>events := ev # events s'\<rparr>) = quiet s s'"
  by (simp add: quiet_def tickets_def alerts_def)

lemma quiet_steps [simp]: "quiet s (s'\<lparr>steps := xs\<rparr>) = quiet s s'"
  by (simp add: quiet_def tickets_def alerts_def)

lemma op_frameD: "op_frame f \<Longrightarrow> f s = (r, s') \<Longrightarrow> quiet s s' \<and> steps s' = steps s"
  by (simp add: op_frame_def)

lemma op_frame_return [simp]: "op_frame (return a)"
  by (auto simp: op_frame_def return_def)

lemma op_frame_call [simp]: "\<not> is_ticket ev \<Longrightarrow> \<not> is_alert ev \<Longrightarrow> op_frame (call ev oracle)"
  by (auto simp: op_frame_def call_def Let_def)

lemma op_frame_bind:
  assumes "op_frame m" and "\<And>a. op_frame (f a)"
  shows "op_frame (bind m f)"
proof (unfold op_frame_def, intro allI impI)
  fix s r s'
  assume run: "bind m f s = (r, s')"
  obtain r1 s1 where ms: "m s = (r1, s1)" by (cases "m s")
  have q1: "quiet s s1" "steps s1 = steps s"
    using op_frameD[OF assms(1) ms] by auto
  show "quiet s s' \<and> steps s' = steps s"
  proof (cases r1)
    case (Inl e)
    then show ?thesis using ms q1 run by (simp add: bind_def)
  next
    case (Inr a)
    then have "f a s1 = (r, s')" using ms run by (simp add: bind_def)
    then have "quiet s1 s'" "steps s' = steps s1"
      using op_frameD[OF assms(2)] by auto
    then show ?thesis using q1 by (auto intro: quiet_trans)
  qed
qed

lemma op_frame_try:
  assumes "op_frame m" and "\<And>e. op_frame (h e)"
  shows "op_frame (try_except m h)"
proof (unfold op_frame_def, intro allI impI)
  fix s r s'
  assume run: "try_except m h s = (r, s')"
  obtain r1 s1 where ms: "m s = (r1, s1)" by (cases "m s")
  have q1: "quiet s s1" "steps s1 = steps s"
    using op_frameD[OF assms(1) ms] by auto
  show "quiet s s' \<and> steps s' = steps s"
  proof (cases r1)
    case (Inr a)
    then show ?thesis using ms q1 run by (simp add: try_except_def)
  next
    case (Inl e)
    then have "h e s1 = (r, s')" using ms run by (simp add: try_except_def)
    then have "quiet s1 s'" "steps s' = steps s1"
      using op_frameD[OF assms(2)] by auto
    then show ?thesis using q1 by (auto intro: quiet_trans)
  qed
qed

lemma op_frame_validar [simp]: "op_frame (op_validar_extracto env)"
  by (simp add: op_validar_extracto_def op_frame_bind)

lemma op_frame_refresh [simp]: "op_frame (op_refresh_extracto env)"
  by (auto simp: op_refresh_extracto_def intro!: op_frame_bind split: prod.splits)

lemma op_frame_infocentral: "op_frame (infocentral_validar_inventario env)"
  by (auto simp: infocentral_validar_inventario_def intro!: op_frame_bind)

lemma op_frame_validar_inventario [simp]: "op_frame (validar_inventario env)"
  by (auto simp: validar_inventario_def op_frame_infocentral intro!: op_frame_bind split: prod.splits)

lemma op_frame_enviar_reportes: "op_frame (enviar_reportes env a b)"
  by (auto simp: enviar_reportes_def intro!: op_frame_try op_frame_bind)

lemma op_frame_enviar [simp]: "op_frame (op_enviar_correos env a b)"
  by (auto simp: op_enviar_correos_def op_frame_enviar_reportes intro!: op_frame_bind split: prod.splits)

lemma op_frame_descargar [simp]: "op_frame (descargar_pdfs env)"
  by (auto simp: descargar_pdfs_def intro!: op_frame_bind split: prod.splits)

lemma op_frame_copiar [simp]: "op_frame (copiar_archivos env)"
  by (auto simp: copiar_archivos_def intro!: op_frame_try op_frame_bind split: exn.splits)

lemma client_execute_job_frame:
  "client_execute_job env srv j s = (r, s') \<Longrightarrow> quiet s s' \<and> steps s' = steps s"
  by (auto simp: client_execute_job_def call_def Let_def)

lemma op_frame_cubo [simp]: "op_frame (op_actualizar_cubo env)"
  by (auto simp: op_frame_def op_actualizar_cubo_def ejecutar_job_inventario_def
           split: prod.splits dest: client_execute_job_frame)

lemma run_job_if_frame:
  "run_job_if env a errs s = (r, s') \<Longrightarrow> quiet s s' \<and> steps s' = steps s"
  by (auto simp: run_job_if_def split: prod.splits if_splits dest: client_execute_job_frame)

lemma jobs_loop_frame:
  "jobs_loop env acciones errs s = (r, s') \<Longrightarrow> quiet s s' \<and> steps s' = steps s"
proof (induction acciones arbitrary: errs s)
  case Nil
  then show ?case by simp
next
  case (Cons a rest)
  obtain e1 s1 where r1: "run_job_if env (row_get a ''Accion1'') errs s = (e1, s1)"
    by (cases "run_job_if env (row_get a ''Accion1'') errs s")
  obtain e2 s2 where r2: "run_job_if env (row_get a ''Accion2'') e1 s1 = (e2, s2)"
    by (cases "run_job_if env (row_get a ''Accion2'') e1 s1")
  have q1: "quiet s s1" "steps s1 = steps s" using run_job_if_frame[OF r1] by auto
  have q2: "quiet s1 s2" "steps s2 = steps s1" using run_job_if_frame[OF r2] by auto
  have "jobs_loop env rest e2 s2 = (r, s')" using Cons.prems r1 r2 by (simp add: Let_def)
  then have "quiet s2 s'" "steps s' = steps s2" using Cons.IH by auto
  then show ?case using q1 q2 by (auto intro: quiet_trans)
qed

lemma op_frame_jobs [simp]: "op_frame (op_jobs_correctivos env acc)"
proof -
  have "op_frame (ejecutar_jobs_correctivos env rows)" for rows
    by (auto simp: op_frame_def ejecutar_jobs_correctivos_def Let_def
             split: prod.splits if_splits dest: jobs_loop_frame)
  moreover have "op_frame (\<lambda>s. (acciones_of acc, s))"
    by (simp add: op_frame_def)
  ultimately show ?thesis
    by (auto simp: op_jobs_correctivos_def intro!: op_frame_bind)
qed

subsection \<open>Escalation\<close>

lemma quiet_escalated: "quiet a b \<Longrightarrow> escalated b c \<Longrightarrow> escalated a c"
  by (simp add: quiet_def escalated_def)

lemma execute_stepE:
  assumes "op_frame func" and "execute_step env nom func s = (r, s')"
  shows "\<exists>x. steps s' = steps s @ [x] \<and> nombre x = nom \<and> quiet s s' \<and>
           (r = Inr x \<or> (\<exists>e. r = Inl e \<and> on_step_complete env (events s') = Inl e))"
proof -
  obtain out s1 where f: "func s = (out, s1)" by (cases "func s")
  have q: "quiet s s1" "steps s1 = steps s" using op_frameD[OF assms(1) f] by auto
  show ?thesis
    using assms(2) f q
    by (auto simp: execute_step_def call_def Let_def quiet_def tickets_def alerts_def
             split: sum.splits prod.splits)
qed

lemma crear_ticket_errorE:
  "crear_ticket_error env t d s = (r, s') \<Longrightarrow>
     (\<exists>v. r = Inr v) \<and> events s' = CrearTicketError t d # events s \<and> steps s' = steps s \<and>
     ticket_jira s' = ticket_jira s \<and> start_time s' = start_time s"
  by (auto simp: crear_ticket_error_def Let_def try_except_def bind_def return_def
           split: if_splits sum.splits prod.splits)

lemma send_via_dbmailE:
  "send_via_dbmail env mail s = (r, s') \<Longrightarrow>
     (\<exists>v. r = Inr v) \<and> events s' = mail # events s \<and> steps s' = steps s \<and>
     ticket_jira s' = ticket_jira s \<and> start_time s' = start_time s"
  by (auto simp: send_via_dbmail_def try_except_def bind_def return_def call_def Let_def
           split: sum.splits prod.splits)

lemma handle_errorE:
  assumes "handle_error env p m s = (r, s')"
  shows "r = Inr () \<and> steps s' = steps s \<and> escalated s s' \<and>
         events s' = AlertaError (''Error en: '' @ p) m (ticket_jira s') #
                     CrearTicketError (''[AUTO] Error en Reportes MP: '' @ p) m # events s"
proof -
  obtain r1 s1 where c: "crear_ticket_error env (''[AUTO] Error en Reportes MP: '' @ p) m s = (r1, s1)"
    by (cases "crear_ticket_error env (''[AUTO] Error en Reportes MP: '' @ p) m s")
  from crear_ticket_errorE[OF c] obtain ok msg key where
    r1: "r1 = Inr (ok, msg, key)" and
    e1: "events s1 = CrearTicketError (''[AUTO] Error en Reportes MP: '' @ p) m # events s"
        "steps s1 = steps s" "start_time s1 = start_time s"
    by (metis prod_cases3)
  define s2 where "s2 = (if ok then s1\<lparr>ticket_jira := key\<rparr> else s1)"
  obtain r3 s3 where a: "enviar_alerta_error env (''Error en: '' @ p) m (ticket_jira s2) s2 = (r3, s3)"
    by (cases "enviar_alerta_error env (''Error en: '' @ p) m (ticket_jira s2) s2")
  from send_via_dbmailE[OF a[unfolded enviar_alerta_error_def]] obtain v where
    r3: "r3 = Inr v" and
    e3: "events s3 = AlertaError (''Error en: '' @ p) m (ticket_jira s2) # events s2"
        "steps s3 = steps s2" "ticket_jira s3 = ticket_jira s2" "start_time s3 = start_time s2"
    by auto
  have res: "r = Inr ()" "s' = s3"
    using assms c r1 a r3 by (auto simp: handle_error_def Let_def s2_def)
  show ?thesis
    using res e1 e3 by (auto simp: s2_def escalated_def tickets_def alerts_def)
qed

lemma handle_error_ticket:
  assumes "handle_error env p m s = (r, s')" and "ticket_fails env"
  shows "ticket_jira s' = ticket_jira s"
proof -
  have nokey: "jira_create_issue env l \<noteq> Inr key" if "validate_jira env = []" for l key
    using assms(2) that unfolding ticket_fails_def by (metis sum.distinct(1))
  show ?thesis
    using assms(1) nokey
    by (auto simp: handle_error_def crear_ticket_error_def enviar_alerta_error_def
          send_via_dbmail_def try_except_def bind_def return_def call_def Let_def
          split: if_splits sum.splits prod.splits)
qed

lemma escalation_only_handle:
  "escalation_only (bind (handle_error env p m) (\<lambda>u. return (Some (False, t))))"
  by (auto simp: escalation_only_def bind_def return_def split: prod.splits sum.splits
           dest: handle_errorE)

text \<open>
  C6. For every failed-step name and error text, and whatever the ticket tracker and the
  mail relay do, the escalation handler returns normally; it has made one ticket attempt
  (title and description built from the step name and the error text) and after it one
  error alert carrying the step name, the error text and the ticket identifier stored at
  that moment: the key just created when the creation succeeded, the identifier stored
  before otherwise.
\<close>

theorem handle_error_absorbs:
  "\<exists>s'. handle_error env paso error s = (Inr (), s') \<and>
     events s' = AlertaError (''Error en: '' @ paso) error (ticket_jira s') #
                 CrearTicketError (''[AUTO] Error en Reportes MP: '' @ paso) error # events s \<and>
     ticket_jira s' =
       (if validate_jira env = [] then
          (case jira_create_issue env
                  (CrearTicketError (''[AUTO] Error en Reportes MP: '' @ paso) error # events s) of
             Inr issue_key \<Rightarrow> Some issue_key
           | Inl e \<Rightarrow> ticket_jira s)
        else ticket_jira s) \<and>
     steps s' = steps s \<and> start_time s' = start_time s"
  by (auto simp: handle_error_def crear_ticket_error_def enviar_alerta_error_def
        send_via_dbmail_def try_except_def bind_def return_def call_def Let_def
        split: if_splits sum.splits prod.splits)

theorem handle_error_absorbs_witness:
  "handle_error env_escalation_down ''Descarga de PDFs'' ''boom'' s_init =
     (Inr (), s_init\<lparr>events :=
        [AlertaError ''Error en: Descarga de PDFs'' ''boom'' None,
         CrearTicketError ''[AUTO] Error en Reportes MP: Descarga de PDFs'' ''boom'']\<rparr>)"
  using handle_error_absorbs[of env_escalation_down "''Descarga de PDFs''" "''boom''" s_init]
  by (auto simp: env_defs validate_jira_def)

subsection \<open>The gates of the full flow\<close>

lemma gate_return [simp]: "gate_spec N (return None)"
  by (auto simp: gate_spec_def return_def)

lemma gate_step:
  assumes fr: "op_frame func" and nN: "nom \<in> N"
    and soft: "\<And>x. nombre x = nom \<Longrightarrow> \<not> hard_failed x \<Longrightarrow> gate_spec N (k x)"
    and hard: "\<And>x. nombre x = nom \<Longrightarrow> hard_failed x \<Longrightarrow> escalation_only (k x)"
  shows "gate_spec N (bind (execute_step env nom func) k)"
proof (unfold gate_spec_def, intro allI impI)
  fix s r s'
  assume run: "bind (execute_step env nom func) k s = (r, s')"
  obtain r1 s1 where es: "execute_step env nom func s = (r1, s1)"
    by (cases "execute_step env nom func s")
  from execute_stepE[OF fr es] obtain x where
    x: "steps s1 = steps s @ [x]" "nombre x = nom" "quiet s s1"
       "r1 = Inr x \<or> (\<exists>e. r1 = Inl e)" by blast
  let ?goal = "\<lambda>added. steps s' = steps s @ added \<and> (\<forall>x\<in>set added. nombre x \<in> N) \<and>
           (\<forall>x\<in>set (butlast added). \<not> hard_failed x) \<and>
           (case r of
              Inr None \<Rightarrow> quiet s s' \<and> (\<forall>x\<in>set added. \<not> hard_failed x)
            | Inr (Some v) \<Rightarrow> \<not> fst v \<and> escalated s s'
            | Inl e \<Rightarrow> quiet s s')"
  show "\<exists>added. ?goal added"
  proof (cases r1)
    case (Inl e)
    then have "r = Inl e" "s' = s1" using run es by (auto simp: bind_def)
    then have "?goal [x]" using x nN by simp
    then show ?thesis ..
  next
    case (Inr y)
    then have yx: "y = x" using x(4) by auto
    have kx: "k x s1 = (r, s')" using run es Inr yx by (simp add: bind_def)
    show ?thesis
    proof (cases "hard_failed x")
      case True
      from hard[OF x(2) True, unfolded escalation_only_def, rule_format, OF kx] obtain m where
        "steps s' = steps s1" "escalated s1 s'" "r = Inr (Some (False, m))"
        by blast
      then have "?goal [x]" using x nN by (auto intro: quiet_escalated)
      then show ?thesis ..
    next
      case False
      from soft[OF x(2) False] kx obtain added where
        a: "steps s' = steps s1 @ added" "\<forall>x\<in>set added. nombre x \<in> N"
           "\<forall>x\<in>set (butlast added). \<not> hard_failed x"
           "(case r of
              Inr None \<Rightarrow> quiet s1 s' \<and> (\<forall>x\<in>set added. \<not> hard_failed x)
            | Inr (Some v) \<Rightarrow> \<not> fst v \<and> escalated s1 s'
            | Inl e \<Rightarrow> quiet s1 s')"
        unfolding gate_spec_def by blast
      have "?goal (x # added)"
        using a x nN False
        by (auto split: sum.splits option.splits intro: quiet_trans quiet_escalated)
      then show ?thesis ..
    qed
  qed
qed

lemma call_total_quiet:
  "\<not> is_ticket ev \<Longrightarrow> \<not> is_alert ev \<Longrightarrow> call ev oracle s = (v, s1) \<Longrightarrow>
     quiet s s1 \<and> steps s1 = steps s"
  by (auto simp: call_def Let_def)

lemma gate_with:
  assumes "gate_spec N g"
  shows "gate_spec N (with_tableau env g)"
proof (unfold gate_spec_def, intro allI impI)
  fix s r s'
  assume run: "with_tableau env g s = (r, s')"
  obtain c s1 where cs: "call TableauSignIn (tableau_connect env) s = (c, s1)"
    by (cases "call TableauSignIn (tableau_connect env) s")
  have q1: "quiet s s1" "steps s1 = steps s" using call_total_quiet[OF _ _ cs] by auto
  obtain r2 s2 where g: "g s1 = (r2, s2)" by (cases "g s1")
  have r: "r = r2" and s': "s' = (if c then s2\<lparr>events := TableauSignOut # events s2\<rparr> else s2)"
    using run cs g by (auto simp: with_tableau_def Let_def)
  have q2: "quiet s2 s'" "steps s' = steps s2" using s' by auto
  from assms g obtain added where
    a: "steps s2 = steps s1 @ added" "\<forall>x\<in>set added. nombre x \<in> N"
       "\<forall>x\<in>set (butlast added). \<not> hard_failed x"
       "(case r2 of
           Inr None \<Rightarrow> quiet s1 s2 \<and> (\<forall>x\<in>set added. \<not> hard_failed x)
         | Inr (Some v) \<Rightarrow> \<not> fst v \<and> escalated s1 s2
         | Inl e \<Rightarrow> quiet s1 s2)"
    unfolding gate_spec_def by blast
  have esc: "escalated s1 s2 \<Longrightarrow> escalated s s'"
    using q1 q2 by (auto simp: quiet_def escalated_def)
  have qq: "quiet s1 s2 \<Longrightarrow> quiet s s'"
    using q1 q2 by (auto intro: quiet_trans)
  show "\<exists>added. steps s' = steps s @ added \<and> (\<forall>x\<in>set added. nombre x \<in> N) \<and>
           (\<forall>x\<in>set (butlast added). \<not> hard_failed x) \<and>
           (case r of
              Inr None \<Rightarrow> quiet s s' \<and> (\<forall>x\<in>set added. \<not> hard_failed x)
            | Inr (Some v) \<Rightarrow> \<not> fst v \<and> escalated s s'
            | Inl e \<Rightarrow> quiet s s')"
    using a q1 q2 r esc qq
    by (intro exI[of _ added]) (auto split: sum.splits option.splits)
qed

lemma gate_mono: "gate_spec N g \<Longrightarrow> N \<subseteq> M \<Longrightarrow> gate_spec M g"
  unfolding gate_spec_def by (meson subsetD)

lemma run_mono: "run_spec N g \<Longrightarrow> N \<subseteq> M \<Longrightarrow> run_spec M g"
  unfolding run_spec_def by (meson subsetD)

lemma paso1_spec: "gate_spec names1 (paso1_extracto env)"
  unfolding paso1_extracto_def names1_def
  by (auto simp: hard_failed_def escalation_only_handle intro!: gate_with gate_step)

lemma paso2_inner_spec:
  "gate_spec names2
     (bind (execute_step env ''2.1 Ejecutar Jobs Correctivos'' (op_jobs_correctivos env acc))
        (\<lambda>result.
           if \<not> success result then
             bind (handle_error env ''Jobs Correctivos'' (mensaje result))
               (\<lambda>u. return (Some (False, ''Error en jobs correctivos: '' @ mensaje result)))
           else
             bind (execute_step env ''2.2 Actualizar Cubo'' (op_actualizar_cubo env))
               (\<lambda>result.
                  if \<not> success result then
                    bind (handle_error env ''Actualizacion de Cubo'' (mensaje result))
                      (\<lambda>u. return (Some (False, ''Error actualizando cubo: '' @ mensaje result)))
                  else return None)))"
  unfolding names2_def
  by (auto simp: hard_failed_def escalation_only_handle intro!: gate_step)

lemma paso2_spec: "gate_spec (insert ''2. Validar Inventario SQL'' names2) (paso2_inventario env)"
  unfolding paso2_inventario_def
  by (rule gate_step)
     (auto simp: hard_failed_def intro: gate_mono[OF paso2_inner_spec])

lemma paso3_spec: "gate_spec {''3. Descargar PDFs''} (paso3_descargar env)"
  unfolding paso3_descargar_def
  by (auto simp: hard_failed_def escalation_only_handle intro!: gate_with gate_step)

lemma paso4_spec: "gate_spec {''4. Copiar a DEADWH''} (paso4_copiar env)"
  unfolding paso4_copiar_def
  by (auto simp: hard_failed_def escalation_only_handle intro!: gate_step)

lemma paso5_spec: "gate_spec {''5. Enviar Correos''} (paso5_enviar env)"
  unfolding paso5_enviar_def
  by (auto simp: hard_failed_def escalation_only_handle intro!: gate_step)

lemma exito_spec: "run_spec {} (exito env prefix)"
  unfolding run_spec_def
proof (intro allI impI)
  fix s r s'
  assume run: "exito env prefix s = (r, s')"
  show "\<exists>added. steps s' = steps s @ added \<and> (\<forall>x\<in>set added. nombre x \<in> {}) \<and>
           (\<forall>x\<in>set (butlast added). \<not> hard_failed x) \<and>
           (case r of
              Inr v \<Rightarrow> (if fst v then quiet s s' \<and> (\<forall>x\<in>set added. \<not> hard_failed x)
                        else escalated s s')
            | Inl e \<Rightarrow> quiet s s')"
  proof (cases "start_time s")
    case None
    then show ?thesis using run by (auto simp: exito_def)
  next
    case (Some t0)
    obtain r1 s1 where m: "enviar_resumen_proceso env True (steps s) (clock env (events s) - t0) s = (r1, s1)"
      by (cases "enviar_resumen_proceso env True (steps s) (clock env (events s) - t0) s")
    from send_via_dbmailE[OF m[unfolded enviar_resumen_proceso_def]] obtain v where
      v: "r1 = Inr v" "events s1 = ResumenProceso True (steps s) (clock env (events s) - t0) # events s"
         "steps s1 = steps s" "ticket_jira s1 = ticket_jira s" "start_time s1 = start_time s"
      by auto
    have "r = Inr (True, prefix @ fmt2 env (clock env (events s) - t0) @ ''s'')" "s' = s1"
      using run Some m v(1) by (auto simp: exito_def Let_def bind_def return_def)
    then show ?thesis using v by (auto simp: quiet_def tickets_def alerts_def)
  qed
qed

lemma run_then:
  assumes g: "gate_spec N g" and p: "run_spec M rest"
  shows "run_spec (N \<union> M) (then_continue g rest)"
  unfolding run_spec_def
proof (intro allI impI)
  fix s r s'
  assume run: "then_continue g rest s = (r, s')"
  obtain r1 s1 where gs: "g s = (r1, s1)" by (cases "g s")
  from g gs obtain a1 where
    a1: "steps s1 = steps s @ a1" "\<forall>x\<in>set a1. nombre x \<in> N"
        "\<forall>x\<in>set (butlast a1). \<not> hard_failed x"
        "(case r1 of
            Inr None \<Rightarrow> quiet s s1 \<and> (\<forall>x\<in>set a1. \<not> hard_failed x)
          | Inr (Some v) \<Rightarrow> \<not> fst v \<and> escalated s s1
          | Inl e \<Rightarrow> quiet s s1)"
    unfolding gate_spec_def by blast
  let ?goal = "\<lambda>added. steps s' = steps s @ added \<and> (\<forall>x\<in>set added. nombre x \<in> N \<union> M) \<and>
           (\<forall>x\<in>set (butlast added). \<not> hard_failed x) \<and>
           (case r of
              Inr v \<Rightarrow> (if fst v then quiet s s' \<and> (\<forall>x\<in>set added. \<not> hard_failed x)
                        else escalated s s')
            | Inl e \<Rightarrow> quiet s s')"
  show "\<exists>added. ?goal added"
  proof (cases r1)
    case (Inl e)
    then have "r = Inl e" "s' = s1" using run gs by (auto simp: then_continue_def)
    then have "?goal a1" using a1 Inl by auto
    then show ?thesis ..
  next
    case (Inr opt)
    show ?thesis
    proof (cases opt)
      case (Some v)
      then have "r = Inr v" "s' = s1" using run gs Inr by (auto simp: then_continue_def)
      then have "?goal a1" using a1 Inr Some by auto
      then show ?thesis ..
    next
      case None
      then have rs: "rest s1 = (r, s')" using run gs Inr by (auto simp: then_continue_def)
      from p rs obtain a2 where
        a2: "steps s' = steps s1 @ a2" "\<forall>x\<in>set a2. nombre x \<in> M"
            "\<forall>x\<in>set (butlast a2). \<not> hard_failed x"
            "(case r of
                Inr v \<Rightarrow> (if fst v then quiet s1 s' \<and> (\<forall>x\<in>set a2. \<not> hard_failed x)
                          else escalated s1 s')
              | Inl e \<Rightarrow> quiet s1 s')"
        unfolding run_spec_def by blast
      have q: "quiet s s1" "\<forall>x\<in>set a1. \<not> hard_failed x" using a1(4) Inr None by auto
      have bl: "\<forall>x\<in>set (butlast (a1 @ a2)). \<not> hard_failed x"
        using q(2) a2(3) by (auto simp: butlast_append dest: in_set_butlastD)
      have "?goal (a1 @ a2)"
        using a1(1,2) a2(1,2,4) q bl
        by (auto split: sum.splits if_splits intro: quiet_trans quiet_escalated)
      then show ?thesis ..
    qed
  qed
qed

lemma rest3_spec:
  "run_spec names3
     (then_continue (paso3_descargar env)
        (then_continue (paso4_copiar env)
           (then_continue (paso5_enviar env) (exito env prefix))))"
proof -
  have "run_spec ({''3. Descargar PDFs''} \<union> ({''4. Copiar a DEADWH''} \<union> ({''5. Enviar Correos''} \<union> {})))
     (then_continue (paso3_descargar env)
        (then_continue (paso4_copiar env)
           (then_continue (paso5_enviar env) (exito env prefix))))"
    by (intro run_then paso3_spec paso4_spec paso5_spec exito_spec)
  then show ?thesis by (rule run_mono) (simp add: names3_def)
qed

lemma run_full_try_spec: "run_spec all_names (run_full_try env)"
  unfolding run_full_try_def all_names_def
  by (intro run_then paso1_spec paso2_spec rest3_spec)

lemma run_full_summary:
  assumes "run_full env s0 = (r, s')"
  shows "\<exists>v. r = Inr v \<and> (\<forall>x\<in>set (steps s'). nombre x \<in> all_names) \<and>
           (\<forall>x\<in>set (butlast (steps s')). \<not> hard_failed x) \<and>
           (if fst v then (\<forall>x\<in>set (steps s'). \<not> hard_failed x) \<and> ticket_jira s' = None \<and>
                          tickets s' = tickets s0 \<and> alerts s' = alerts s0
            else tickets s' = Suc (tickets s0) \<and> alerts s' = Suc (alerts s0))"
proof -
  define s where "s = s0\<lparr>start_time := Some (clock env (events s0)), steps := [], ticket_jira := None\<rparr>"
  have s: "steps s = []" "ticket_jira s = None" "tickets s = tickets s0" "alerts s = alerts s0"
    by (simp_all add: s_def tickets_def alerts_def)
  obtain rt st where tr: "run_full_try env s = (rt, st)" by (cases "run_full_try env s")
  from run_full_try_spec[unfolded run_spec_def, rule_format, OF tr] obtain added where
    a: "steps st = steps s @ added" "\<forall>x\<in>set added. nombre x \<in> all_names"
       "\<forall>x\<in>set (butlast added). \<not> hard_failed x"
       "(case rt of
           Inr v \<Rightarrow> (if fst v then quiet s st \<and> (\<forall>x\<in>set added. \<not> hard_failed x)
                     else escalated s st)
         | Inl e \<Rightarrow> quiet s st)"
    by blast
  show ?thesis
  proof (cases rt)
    case (Inr v)
    then have "r = Inr v" "s' = st"
      using assms tr by (auto simp: run_full_def Let_def try_except_def s_def[symmetric])
    then show ?thesis using a s Inr by (auto simp: quiet_def escalated_def)
  next
    case (Inl e)
    obtain rh sh where h: "handle_error env ''Error Inesperado'' (str_exn e) st = (rh, sh)"
      by (cases "handle_error env ''Error Inesperado'' (str_exn e) st")
    from handle_errorE[OF h] have hh: "rh = Inr ()" "steps sh = steps st" "escalated st sh"
      by auto
    have "r = Inr (False, str_exn e)" "s' = sh"
      using assms tr Inl h hh(1)
      by (auto simp: run_full_def Let_def try_except_def bind_def return_def s_def[symmetric])
    then show ?thesis using a s Inl hh by (auto simp: quiet_def escalated_def)
  qed
qed

lemma hard_failed_last:
  assumes "i < length xs" and "hard_failed (xs ! i)" and "\<forall>x\<in>set (butlast xs). \<not> hard_failed x"
  shows "Suc i = length xs"
proof (rule ccontr)
  assume "Suc i \<noteq> length xs"
  then have lt: "i < length (butlast xs)" using assms(1) by simp
  have "butlast xs ! i \<in> set (butlast xs)" using nth_mem[OF lt] .
  moreover have "butlast xs ! i = xs ! i" using nth_butlast[OF lt] .
  ultimately show False using assms(2,3) by auto
qed

text \<open>
  C1, as amended. In the full flow, a failed StepResult of any step other than
  \<^verbatim>\<open>1. Validar Extracto Tableau\<close> and \<^verbatim>\<open>2. Validar Inventario SQL\<close> is the last
  step of the run: no later step executes, the run returns success = false, and exactly
  one ticket attempt and one error alert were made during it. (After a failure of the
  first of the two the source goes on to the refresh, after a failure of the second that
  reports differences to the corrective jobs.)
\<close>

theorem gate_failure_terminal:
  assumes "run_full env s0 = (r, s')" and "i < length (steps s')"
    and "hard_failed (steps s' ! i)"
  shows "Suc i = length (steps s') \<and> (\<exists>m. r = Inr (False, m)) \<and>
         tickets s' = Suc (tickets s0) \<and> alerts s' = Suc (alerts s0)"
proof -
  from run_full_summary[OF assms(1)] obtain v where
    v: "r = Inr v" "\<forall>x\<in>set (butlast (steps s')). \<not> hard_failed x"
       "if fst v then (\<forall>x\<in>set (steps s'). \<not> hard_failed x) \<and> ticket_jira s' = None \<and>
                          tickets s' = tickets s0 \<and> alerts s' = alerts s0
            else tickets s' = Suc (tickets s0) \<and> alerts s' = Suc (alerts s0)"
    by blast
  have last: "Suc i = length (steps s')"
    using hard_failed_last[OF assms(2,3) v(2)] .
  have "\<not> fst v"
    using v(3) assms(2,3) nth_mem[OF assms(2)] by (auto split: if_splits)
  then have "r = Inr (False, snd v)" "tickets s' = Suc (tickets s0)" "alerts s' = Suc (alerts s0)"
    using v(1,3) by (auto simp: prod_eq_iff)
  then show ?thesis using last by blast
qed

theorem gate_failure_terminal_witness:
  "hard_failed (steps (snd (run_full env_descarga_falla s_init)) ! 2) \<and>
   Suc 2 = length (steps (snd (run_full env_descarga_falla s_init))) \<and>
   (\<exists>m. fst (run_full env_descarga_falla s_init) = Inr (False, m)) \<and>
   tickets (snd (run_full env_descarga_falla s_init)) = Suc (tickets s_init) \<and>
   alerts (snd (run_full env_descarga_falla s_init)) = Suc (alerts s_init)"
proof -
  have run: "run_full env_descarga_falla s_init
               = (fst (run_full env_descarga_falla s_init), snd (run_full env_descarga_falla s_init))"
    by simp
  have st: "map (\<lambda>x. (nombre x, success x)) (steps (snd (run_full env_descarga_falla s_init)))
              = [(''1. Validar Extracto Tableau'', True), (''2. Validar Inventario SQL'', True),
                 (''3. Descargar PDFs'', False)]"
    by (simp add: flow_defs env_defs)
  have len: "length (steps (snd (run_full env_descarga_falla s_init))) = 3"
    using arg_cong[OF st, of length] by simp
  have i: "2 < length (steps (snd (run_full env_descarga_falla s_init)))"
    using len by simp
  have "map (\<lambda>x. (nombre x, success x)) (steps (snd (run_full env_descarga_falla s_init))) ! 2
          = (''3. Descargar PDFs'', False)"
    by (simp add: st)
  then have hf: "hard_failed (steps (snd (run_full env_descarga_falla s_init)) ! 2)"
    using i by (simp add: hard_failed_def)
  show ?thesis
    using gate_failure_terminal[OF run i hf] hf by simp
qed

theorem gate_failure_terminal_counterexample:
  "\<not> (\<forall>env s0 r s' i. run_full env s0 = (r, s') \<and> i < length (steps s') \<and>
         \<not> success (steps s' ! i) \<longrightarrow>
         Suc i = length (steps s') \<and> (\<exists>m. r = Inr (False, m)) \<and>
         tickets s' = Suc (tickets s0) \<and> alerts s' = Suc (alerts s0))"
proof
  assume claim: "\<forall>env s0 r s' i. run_full env s0 = (r, s') \<and> i < length (steps s') \<and>
         \<not> success (steps s' ! i) \<longrightarrow>
         Suc i = length (steps s') \<and> (\<exists>m. r = Inr (False, m)) \<and>
         tickets s' = Suc (tickets s0) \<and> alerts s' = Suc (alerts s0)"
  have run: "run_full env_diferencias s_init
               = (fst (run_full env_diferencias s_init), snd (run_full env_diferencias s_init))"
    by simp
  have st: "map (\<lambda>x. (nombre x, success x)) (steps (snd (run_full env_diferencias s_init)))
              = [(''1. Validar Extracto Tableau'', True), (''2. Validar Inventario SQL'', False),
                 (''2.1 Ejecutar Jobs Correctivos'', True), (''2.2 Actualizar Cubo'', True),
                 (''3. Descargar PDFs'', True), (''4. Copiar a DEADWH'', True),
                 (''5. Enviar Correos'', True)]"
    by (simp add: flow_defs env_defs str_nat.simps digit_char_def)
  have len: "length (steps (snd (run_full env_diferencias s_init))) = 7"
    using arg_cong[OF st, of length] by simp
  have i: "1 < length (steps (snd (run_full env_diferencias s_init)))"
    using len by simp
  have "map (\<lambda>x. (nombre x, success x)) (steps (snd (run_full env_diferencias s_init))) ! 1
          = (''2. Validar Inventario SQL'', False)"
    by (simp add: st)
  then have f: "\<not> success (steps (snd (run_full env_diferencias s_init)) ! 1)"
    using i by simp
  from claim run i f have "Suc 1 = length (steps (snd (run_full env_diferencias s_init)))"
    by blast
  then show False using len by simp
qed

text \<open>
  The same condition of the full flow lets through a failure that reports no differences:
  when the inventory query itself raises, the failed step has empty details, the run goes
  on to render, distribute and send, and ends in success without any escalation.
\<close>

lemma inventory_error_not_escalated:
  "fst (run_full env_infocentral_down s_init) = Inr (True, ''Proceso completado en 0.00s'') \<and>
   map (\<lambda>x. (nombre x, success x, mensaje x)) (steps (snd (run_full env_infocentral_down s_init)))
     = [(''1. Validar Extracto Tableau'', True, ''Extracto valido: 2.00h''),
        (''2. Validar Inventario SQL'', False, ''connection refused''),
        (''3. Descargar PDFs'', True, ''1 reportes descargados''),
        (''4. Copiar a DEADWH'', True, ''1 archivos copiados''),
        (''5. Enviar Correos'', True, ''Reportes enviados exitosamente'')] \<and>
   tickets (snd (run_full env_infocentral_down s_init)) = 0"
  by (simp add: flow_defs env_defs tickets_def str_nat.simps digit_char_def)

subsection \<open>The step list after the inventory validation\<close>

lemma paso2_shape:
  assumes "paso2_inventario env s = (r, s')"
  shows "\<exists>x rest. steps s' = steps s @ x # rest \<and> nombre x = ''2. Validar Inventario SQL'' \<and>
           (\<forall>y\<in>set rest. nombre y \<in> names2) \<and>
           (success x \<longrightarrow> rest = [] \<and>
              (r = Inr None \<or> (\<exists>e. r = Inl e \<and> on_step_complete env (events s') = Inl e)))"
proof -
  obtain r1 s1 where es:
    "execute_step env ''2. Validar Inventario SQL'' (validar_inventario env) s = (r1, s1)"
    by (cases "execute_step env ''2. Validar Inventario SQL'' (validar_inventario env) s")
  from execute_stepE[OF op_frame_validar_inventario es] obtain x where
    x: "steps s1 = steps s @ [x]" "nombre x = ''2. Validar Inventario SQL''"
       "r1 = Inr x \<or> (\<exists>e. r1 = Inl e \<and> on_step_complete env (events s1) = Inl e)"
    by blast
  let ?goal = "\<lambda>rest. steps s' = steps s @ x # rest \<and> nombre x = ''2. Validar Inventario SQL'' \<and>
           (\<forall>y\<in>set rest. nombre y \<in> names2) \<and>
           (success x \<longrightarrow> rest = [] \<and>
              (r = Inr None \<or> (\<exists>e. r = Inl e \<and> on_step_complete env (events s') = Inl e)))"
  have "\<exists>rest. ?goal rest"
  proof (cases r1)
    case (Inl e)
    then have "r = Inl e" "s' = s1" using assms es by (auto simp: paso2_inventario_def bind_def)
    then have "?goal []" using x Inl by auto
    then show ?thesis ..
  next
    case (Inr y)
    then have yx: "y = x" using x(3) by auto
    show ?thesis
    proof (cases "\<not> success x \<and> truthy_det (map_of (detalles x) ''hay_diferencias'')")
      case False
      then have "r = Inr None" "s' = s1"
        using assms es Inr yx by (auto simp: paso2_inventario_def bind_def return_def)
      then have "?goal []" using x by auto
      then show ?thesis ..
    next
      case True
      then have inner: "bind (execute_step env ''2.1 Ejecutar Jobs Correctivos''
                 (op_jobs_correctivos env (map_of (detalles x) ''acciones'')))
        (\<lambda>result.
           if \<not> success result then
             bind (handle_error env ''Jobs Correctivos'' (mensaje result))
               (\<lambda>u. return (Some (False, ''Error en jobs correctivos: '' @ mensaje result)))
           else
             bind (execute_step env ''2.2 Actualizar Cubo'' (op_actualizar_cubo env))
               (\<lambda>result.
                  if \<not> success result then
                    bind (handle_error env ''Actualizacion de Cubo'' (mensaje result))
                      (\<lambda>u. return (Some (False, ''Error actualizando cubo: '' @ mensaje result)))
                  else return None)) s1 = (r, s')"
        using assms es Inr yx by (simp add: paso2_inventario_def bind_def)
      from paso2_inner_spec[unfolded gate_spec_def, rule_format, OF inner] obtain added where
        "steps s' = steps s1 @ added" "\<forall>y\<in>set added. nombre y \<in> names2" by blast
      then have "?goal added" using x True by auto
      then show ?thesis ..
    qed
  qed
  then show ?thesis by blast
qed

lemma with_tableau_steps:
  assumes "with_tableau env g s = (r, s')"
  shows "\<exists>s1 s2. g s1 = (r, s2) \<and> steps s1 = steps s \<and> steps s' = steps s2"
proof -
  define s1 where "s1 = s\<lparr>events := TableauSignIn # events s\<rparr>"
  obtain r2 s2 where g: "g s1 = (r2, s2)" by (cases "g s1")
  have "r = r2" "steps s' = steps s2"
    using assms g by (auto simp: with_tableau_def call_def Let_def s1_def split: if_splits)
  then show ?thesis using g by (intro exI[of _ s1] exI[of _ s2]) (simp add: s1_def)
qed

lemma paso3_shape:
  assumes "paso3_descargar env s = (r, s')"
  shows "\<exists>y. steps s' = steps s @ [y] \<and> nombre y = ''3. Descargar PDFs''"
proof -
  from with_tableau_steps[OF assms[unfolded paso3_descargar_def]] obtain s1 s2 where
    b: "bind (execute_step env ''3. Descargar PDFs'' (descargar_pdfs env))
          (\<lambda>result.
             if \<not> success result then
               bind (handle_error env ''Descarga de PDFs'' (mensaje result))
                 (\<lambda>u. return (Some (False, ''Error descargando PDFs: '' @ mensaje result)))
             else return None) s1 = (r, s2)"
    and st: "steps s1 = steps s" "steps s' = steps s2" by blast
  obtain r1 t1 where es: "execute_step env ''3. Descargar PDFs'' (descargar_pdfs env) s1 = (r1, t1)"
    by (cases "execute_step env ''3. Descargar PDFs'' (descargar_pdfs env) s1")
  from execute_stepE[OF op_frame_descargar es] obtain y where
    y: "steps t1 = steps s1 @ [y]" "nombre y = ''3. Descargar PDFs''" by blast
  have "steps s2 = steps t1"
    using b es
    by (auto simp: bind_def return_def split: sum.splits prod.splits if_splits
             dest: handle_errorE)
  then show ?thesis using y st by auto
qed

lemma rest3_shape:
  assumes "then_continue (paso3_descargar env)
             (then_continue (paso4_copiar env)
                (then_continue (paso5_enviar env) (exito env prefix))) s = (r, s')"
  shows "\<exists>y ys. steps s' = steps s @ y # ys \<and> nombre y = ''3. Descargar PDFs'' \<and>
           (\<forall>z\<in>set ys. nombre z \<in> names3)"
proof -
  obtain r3 s3 where p3: "paso3_descargar env s = (r3, s3)" by (cases "paso3_descargar env s")
  from paso3_shape[OF p3] obtain y where
    y: "steps s3 = steps s @ [y]" "nombre y = ''3. Descargar PDFs''" by blast
  show ?thesis
  proof (cases "r3 = Inr None")
    case False
    then have "s' = s3"
      using assms p3 by (auto simp: then_continue_def split: sum.splits option.splits)
    then show ?thesis using y by auto
  next
    case True
    then have rest: "then_continue (paso4_copiar env)
                (then_continue (paso5_enviar env) (exito env prefix)) s3 = (r, s')"
      using assms p3 by (simp add: then_continue_def)
    have "run_spec ({''4. Copiar a DEADWH''} \<union> ({''5. Enviar Correos''} \<union> {}))
            (then_continue (paso4_copiar env)
                (then_continue (paso5_enviar env) (exito env prefix)))"
      by (intro run_then paso4_spec paso5_spec exito_spec)
    from this[unfolded run_spec_def, rule_format, OF rest] obtain added where
      "steps s' = steps s3 @ added" "\<forall>z\<in>set added. nombre z \<in> names3"
      by (auto simp: names3_def)
    then show ?thesis using y by auto
  qed
qed

lemma run_full_steps:
  assumes "run_full env s0 = (r, s')"
  shows "\<exists>rt st. run_full_try env
            (s0\<lparr>start_time := Some (clock env (events s0)), steps := [], ticket_jira := None\<rparr>)
              = (rt, st) \<and> steps s' = steps st"
proof -
  define s where "s = s0\<lparr>start_time := Some (clock env (events s0)), steps := [], ticket_jira := None\<rparr>"
  obtain rt st where tr: "run_full_try env s = (rt, st)" by (cases "run_full_try env s")
  have "steps s' = steps st"
    using assms tr
    by (auto simp: run_full_def Let_def try_except_def bind_def return_def s_def[symmetric]
             split: sum.splits prod.splits dest: handle_errorE)
  then show ?thesis using tr by (auto simp: s_def)
qed

text \<open>
  C4. In the full flow, when the inventory-validation step succeeded (the reconciliation
  reported no differences), the step list of the run holds no corrective-jobs step and no
  cube-refresh step, and the step recorded right after the inventory validation is the
  PDF download; no step follows it only when the observer callback raised.
\<close>

theorem no_differences_skips_corrective_branch:
  assumes run: "run_full env s0 = (r, s')"
    and x: "x \<in> set (steps s')" "nombre x = ''2. Validar Inventario SQL''" "success x"
  shows "(\<forall>y\<in>set (steps s'). nombre y \<noteq> ''2.1 Ejecutar Jobs Correctivos'' \<and>
                               nombre y \<noteq> ''2.2 Actualizar Cubo'') \<and>
         (case steps_after ''2. Validar Inventario SQL'' (steps s') of
            [] \<Rightarrow> \<exists>l e. on_step_complete env l = Inl e
          | y # ys \<Rightarrow> nombre y = ''3. Descargar PDFs'')"
proof -
  define s where "s = s0\<lparr>start_time := Some (clock env (events s0)), steps := [], ticket_jira := None\<rparr>"
  from run_full_steps[OF run] obtain rt st where
    tr: "run_full_try env s = (rt, st)" and st: "steps s' = steps st" by (auto simp: s_def)
  have s0: "steps s = []" by (simp add: s_def)
  obtain r1 s1 where p1: "paso1_extracto env s = (r1, s1)" by (cases "paso1_extracto env s")
  from paso1_spec[unfolded gate_spec_def, rule_format, OF p1] obtain a1 where
    a1: "steps s1 = a1" "\<forall>y\<in>set a1. nombre y \<in> names1" using s0 by auto
  have n1: "\<forall>y\<in>set a1. nombre y \<noteq> ''2. Validar Inventario SQL'' \<and>
              nombre y \<noteq> ''2.1 Ejecutar Jobs Correctivos'' \<and> nombre y \<noteq> ''2.2 Actualizar Cubo''"
    using a1(2) by (auto simp: names1_def)
  show ?thesis
  proof (cases "r1 = Inr None")
    case False
    then have "st = s1"
      using tr p1 by (auto simp: run_full_try_def then_continue_def split: sum.splits option.splits)
    then show ?thesis using x st a1 n1 by auto
  next
    case True
    let ?rest3 = "then_continue (paso3_descargar env)
             (then_continue (paso4_copiar env)
                (then_continue (paso5_enviar env) (exito env ''Proceso completado en '')))"
    have tr2: "then_continue (paso2_inventario env) ?rest3 s1 = (rt, st)"
      using tr p1 True by (simp add: run_full_try_def then_continue_def)
    obtain r2 s2 where p2: "paso2_inventario env s1 = (r2, s2)"
      by (cases "paso2_inventario env s1")
    from paso2_shape[OF p2] obtain x2 rest2 where
      sh: "steps s2 = a1 @ x2 # rest2" "nombre x2 = ''2. Validar Inventario SQL''"
          "\<forall>y\<in>set rest2. nombre y \<in> names2"
          "success x2 \<longrightarrow> rest2 = [] \<and>
              (r2 = Inr None \<or> (\<exists>e. r2 = Inl e \<and> on_step_complete env (events s2) = Inl e))"
      using a1(1) by auto
    have n2: "\<forall>y\<in>set rest2. nombre y \<noteq> ''2. Validar Inventario SQL''"
      using sh(3) by (auto simp: names2_def)
    have dw: "dropWhile (\<lambda>y. nombre y \<noteq> ''2. Validar Inventario SQL'') (a1 @ x2 # zs) = x2 # zs" for zs
      using n1 sh(2) by (simp add: dropWhile_append2)
    show ?thesis
    proof (cases "r2 = Inr None")
      case False
      then have "st = s2"
        using tr2 p2 by (auto simp: then_continue_def split: sum.splits option.splits)
      then have all: "steps s' = a1 @ x2 # rest2" using st sh(1) by simp
      then have "x = x2" using x n1 n2 by auto
      then have "rest2 = []" "\<exists>e. on_step_complete env (events s2) = Inl e"
        using sh(4) x(3) False by auto
      then show ?thesis using all n1 sh(2) dw[of "[]"] by (auto simp: steps_after_def)
    next
      case True
      then have r3: "?rest3 s2 = (rt, st)" using tr2 p2 by (simp add: then_continue_def)
      from rest3_shape[OF r3] obtain y ys where
        y: "steps st = steps s2 @ y # ys" "nombre y = ''3. Descargar PDFs''"
           "\<forall>z\<in>set ys. nombre z \<in> names3" by blast
      have n3: "\<forall>z\<in>set ys. nombre z \<noteq> ''2. Validar Inventario SQL'' \<and>
              nombre z \<noteq> ''2.1 Ejecutar Jobs Correctivos'' \<and> nombre z \<noteq> ''2.2 Actualizar Cubo''"
        using y(3) by (auto simp: names3_def)
      have all: "steps s' = a1 @ x2 # rest2 @ y # ys" using st sh(1) y(1) by simp
      then have "x = x2" using x n1 n2 n3 y(2) by auto
      then have "rest2 = []" using sh(4) x(3) by auto
      then show ?thesis
        using all n1 n3 sh(2) y(2) dw[of "y # ys"] by (auto simp: steps_after_def)
    qed
  qed
qed

theorem no_differences_skips_corrective_branch_witness:
  "map nombre (steps (snd (run_full env_ok s_init)))
     = [''1. Validar Extracto Tableau'', ''2. Validar Inventario SQL'', ''3. Descargar PDFs'',
        ''4. Copiar a DEADWH'', ''5. Enviar Correos''] \<and>
   map nombre (steps_after ''2. Validar Inventario SQL'' (steps (snd (run_full env_ok s_init))))
     = [''3. Descargar PDFs'', ''4. Copiar a DEADWH'', ''5. Enviar Correos'']"
proof -
  have sa: "map nombre (steps_after ''2. Validar Inventario SQL''
                          (steps (snd (run_full env_ok s_init))))
     = [''3. Descargar PDFs'', ''4. Copiar a DEADWH'', ''5. Enviar Correos'']"
    by (simp add: flow_defs env_defs steps_after_def str_nat.simps digit_char_def)
  have run: "run_full env_ok s_init = (fst (run_full env_ok s_init), snd (run_full env_ok s_init))"
    by simp
  have st: "map (\<lambda>x. (nombre x, success x)) (steps (snd (run_full env_ok s_init)))
     = [(''1. Validar Extracto Tableau'', True), (''2. Validar Inventario SQL'', True),
        (''3. Descargar PDFs'', True), (''4. Copiar a DEADWH'', True),
        (''5. Enviar Correos'', True)]"
    by (simp add: flow_defs env_defs str_nat.simps digit_char_def)
  have len: "length (steps (snd (run_full env_ok s_init))) = 5"
    using arg_cong[OF st, of length] by simp
  have "map (\<lambda>x. (nombre x, success x)) (steps (snd (run_full env_ok s_init))) ! 1
          = (''2. Validar Inventario SQL'', True)"
    by (simp add: st)
  then have x: "nombre (steps (snd (run_full env_ok s_init)) ! 1) = ''2. Validar Inventario SQL''"
               "success (steps (snd (run_full env_ok s_init)) ! 1)"
    using len by simp_all
  have mem: "steps (snd (run_full env_ok s_init)) ! 1 \<in> set (steps (snd (run_full env_ok s_init)))"
    using len by simp
  have nm: "map nombre (steps (snd (run_full env_ok s_init)))
     = [''1. Validar Extracto Tableau'', ''2. Validar Inventario SQL'', ''3. Descargar PDFs'',
        ''4. Copiar a DEADWH'', ''5. Enviar Correos'']"
    using arg_cong[OF st, of "map fst"] by (simp add: comp_def)
  show ?thesis
    using no_differences_skips_corrective_branch[OF run mem x] nm sa by simp
qed

subsection \<open>The send-only and the validation-only flow\<close>

lemma run_send_only_summary:
  assumes "run_send_only env a b s0 = (r, s')"
  shows "\<exists>v. r = Inr v \<and>
           (if fst v then ticket_jira s' = ticket_jira s0 \<and> tickets s' = tickets s0 \<and> alerts s' = alerts s0
            else tickets s' = Suc (tickets s0) \<and> alerts s' = Suc (alerts s0) \<and>
                 (\<exists>p. events s' = AlertaError (''Error en: '' @ p) (snd v) (ticket_jira s') #
                          CrearTicketError (''[AUTO] Error en Reportes MP: '' @ p) (snd v) #
                          tl (tl (events s'))) \<and>
                 (ticket_fails env \<longrightarrow> ticket_jira s' = ticket_jira s0))"
proof -
  define s where "s = s0\<lparr>start_time := Some (clock env (events s0)), steps := []\<rparr>"
  have s: "ticket_jira s = ticket_jira s0" "tickets s = tickets s0" "alerts s = alerts s0"
          "start_time s \<noteq> None"
    by (simp_all add: s_def tickets_def alerts_def)
  obtain r1 s1 where es: "execute_step env ''Enviar Correos'' (op_enviar_correos env a b) s = (r1, s1)"
    by (cases "execute_step env ''Enviar Correos'' (op_enviar_correos env a b) s")
  from execute_stepE[OF op_frame_enviar es] obtain x where
    x: "quiet s s1" "r1 = Inr x \<or> (\<exists>e. r1 = Inl e)" by blast
  have handler: "\<exists>v. r = Inr v \<and> \<not> fst v \<and> tickets s' = Suc (tickets s0) \<and> alerts s' = Suc (alerts s0) \<and>
                 (\<exists>p. events s' = AlertaError (''Error en: '' @ p) (snd v) (ticket_jira s') #
                          CrearTicketError (''[AUTO] Error en Reportes MP: '' @ p) (snd v) #
                          tl (tl (events s'))) \<and>
                 (ticket_fails env \<longrightarrow> ticket_jira s' = ticket_jira s0)"
    if h: "handle_error env p m s1 = (rh, s')" and r: "rh = Inr () \<longrightarrow> r = Inr (False, m)" for p m rh
    using handle_errorE[OF h] handle_error_ticket[OF h] r x(1) s
    by (auto simp: quiet_def escalated_def)
  show ?thesis
  proof (cases r1)
    case (Inl e)
    obtain rh sh where h: "handle_error env ''Error Inesperado'' (str_exn e) s1 = (rh, sh)"
      by (cases "handle_error env ''Error Inesperado'' (str_exn e) s1")
    have "rh = Inr ()" using handle_errorE[OF h] by simp
    then have "r = Inr (False, str_exn e)" "s' = sh"
      using assms es Inl h
      by (auto simp: run_send_only_def Let_def try_except_def bind_def return_def s_def[symmetric])
    then show ?thesis using handler[of "''Error Inesperado''" "str_exn e" rh] h by auto
  next
    case (Inr y)
    show ?thesis
    proof (cases "success y")
      case False
      obtain rh sh where h: "handle_error env ''Envio de Correos'' (mensaje y) s1 = (rh, sh)"
        by (cases "handle_error env ''Envio de Correos'' (mensaje y) s1")
      have "rh = Inr ()" using handle_errorE[OF h] by simp
      then have "r = Inr (False, mensaje y)" "s' = sh"
        using assms es Inr h False
        by (auto simp: run_send_only_def Let_def try_except_def bind_def return_def s_def[symmetric])
      then show ?thesis using handler[of "''Envio de Correos''" "mensaje y" rh] h by auto
    next
      case True
      obtain re se where ex: "exito env ''Correos enviados exitosamente en '' s1 = (re, se)"
        by (cases "exito env ''Correos enviados exitosamente en '' s1")
      have st: "start_time s1 \<noteq> None" using x(1) s by (auto simp: quiet_def)
      from exito_spec[unfolded run_spec_def, rule_format, OF ex]
      have q: "case re of Inr v \<Rightarrow> (if fst v then quiet s1 se else escalated s1 se) | Inl e \<Rightarrow> quiet s1 se"
        by (auto split: sum.splits if_splits)
      have "\<exists>m. re = Inr (True, m)"
        using ex st by (auto simp: exito_def Let_def bind_def return_def enviar_resumen_proceso_def
                         split: option.splits sum.splits prod.splits dest: send_via_dbmailE)
      then obtain m where re: "re = Inr (True, m)" ..
      have rs: "r = Inr (True, m)" "s' = se"
        using assms es Inr True ex re
        by (auto simp: run_send_only_def Let_def try_except_def bind_def s_def[symmetric])
      have "quiet s1 se" using q re by simp
      then have "ticket_jira s' = ticket_jira s0 \<and> tickets s' = tickets s0 \<and> alerts s' = alerts s0"
        using x(1) s rs(2) by (simp add: quiet_def)
      then show ?thesis using rs(1) by simp
    qed
  qed
qed

lemma keeps_return: "keeps f (return a)"
  by (auto simp: keeps_def return_def)

lemma keeps_bind:
  assumes "keeps f m" and "\<And>a. keeps f (k a)"
  shows "keeps f (bind m k)"
proof (unfold keeps_def, intro allI impI)
  fix s r s'
  assume run: "bind m k s = (r, s')"
  obtain r1 s1 where ms: "m s = (r1, s1)" by (cases "m s")
  have f1: "f s1 = f s" using assms(1) ms by (auto simp: keeps_def)
  show "f s' = f s"
  proof (cases r1)
    case (Inl e)
    then show ?thesis using run ms f1 by (simp add: bind_def)
  next
    case (Inr a)
    then have "k a s1 = (r, s')" using run ms by (simp add: bind_def)
    then have "f s' = f s1" using assms(2)[of a] by (auto simp: keeps_def)
    then show ?thesis using f1 by simp
  qed
qed

lemma keeps_call_validation:
  "validation_event ev \<Longrightarrow> keeps escalation_view (call ev oracle)"
  by (auto simp: keeps_def call_def Let_def escalation_view_def other_events_def)

lemma keeps_execute_step:
  assumes "keeps escalation_view func"
  shows "keeps escalation_view (execute_step env nom func)"
proof (unfold keeps_def, intro allI impI)
  fix s r s'
  assume run: "execute_step env nom func s = (r, s')"
  obtain out s1 where f: "func s = (out, s1)" by (cases "func s")
  have "escalation_view s1 = escalation_view s" using assms f by (auto simp: keeps_def)
  then show "escalation_view s' = escalation_view s"
    using run f
    by (auto simp: execute_step_def call_def Let_def escalation_view_def other_events_def
             split: sum.splits prod.splits)
qed

lemma keeps_with_tableau:
  assumes "keeps escalation_view body"
  shows "keeps escalation_view (with_tableau env body)"
proof (unfold keeps_def, intro allI impI)
  fix s r s'
  assume run: "with_tableau env body s = (r, s')"
  define s1 where "s1 = s\<lparr>events := TableauSignIn # events s\<rparr>"
  obtain r2 s2 where b: "body s1 = (r2, s2)" by (cases "body s1")
  have "escalation_view s2 = escalation_view s1" using assms b by (auto simp: keeps_def)
  moreover have "escalation_view s1 = escalation_view s"
    by (simp add: s1_def escalation_view_def other_events_def)
  ultimately show "escalation_view s' = escalation_view s"
    using run b
    by (auto simp: with_tableau_def call_def Let_def s1_def escalation_view_def other_events_def
             split: if_splits)
qed

lemma keeps_op_validar: "keeps escalation_view (op_validar_extracto env)"
  unfolding op_validar_extracto_def
  by (intro keeps_bind keeps_return keeps_call_validation) simp

lemma keeps_op_refresh: "keeps escalation_view (op_refresh_extracto env)"
  unfolding op_refresh_extracto_def
  by (intro keeps_bind keeps_call_validation) (auto simp: keeps_return)

lemma run_validation_only_keeps:
  "escalation_view (snd (run_validation_only env s)) = escalation_view s"
proof -
  define s1 where "s1 = s\<lparr>start_time := Some (clock env (events s)), steps := []\<rparr>"
  have k: "keeps escalation_view
     (with_tableau env
           (bind (execute_step env ''Validar Extracto Tableau'' (op_validar_extracto env))
              (\<lambda>result.
                 if success result then return (True, mensaje result)
                 else
                   bind (execute_step env ''Refresh Extracto'' (op_refresh_extracto env))
                     (\<lambda>result.
                        if success result then
                          bind (execute_step env ''Revalidar Extracto''
                                  (op_validar_extracto env))
                            (\<lambda>result. return (success result, mensaje result))
                        else return (False, mensaje result)))))"
    by (intro keeps_with_tableau keeps_bind keeps_execute_step keeps_op_validar keeps_op_refresh)
       (auto simp: keeps_return keeps_op_refresh keeps_op_validar intro!: keeps_bind keeps_execute_step)
  have "escalation_view s1 = escalation_view s"
    by (simp add: s1_def escalation_view_def other_events_def)
  moreover have "escalation_view (snd (run_validation_only env s)) = escalation_view s1"
    using k[unfolded keeps_def, rule_format, of s1 "fst (run_validation_only env s)" "snd (run_validation_only env s)"]
    by (simp add: run_validation_only_def Let_def s1_def)
  ultimately show ?thesis by simp
qed

text \<open>
  C7. The validation-only flow never escalates: for every behaviour of the extract service
  and of the observer, the ticket identifier after the run is the one before it, and the
  run adds no event other than signing in and out of the report server, the freshness
  checks, the refresh and the observer callbacks; in particular no ticket attempt and no
  mail.
\<close>

theorem validation_only_no_escalation:
  "ticket_jira (snd (run_validation_only env s)) = ticket_jira s \<and>
   other_events (snd (run_validation_only env s)) = other_events s"
  using run_validation_only_keeps[of env s] by (simp add: escalation_view_def)

theorem validation_only_no_escalation_witness:
  "fst (run_validation_only env_refresh_falla s_stale) = Inr (False, ''Refresh cancelado'') \<and>
   ticket_jira (snd (run_validation_only env_refresh_falla s_stale)) = Some ''DDF-7'' \<and>
   other_events (snd (run_validation_only env_refresh_falla s_stale)) = []"
proof -
  have "fst (run_validation_only env_refresh_falla s_stale) = Inr (False, ''Refresh cancelado'')"
    by (simp add: flow_defs env_defs)
  moreover have "ticket_jira s_stale = Some ''DDF-7''" "other_events s_stale = []"
    by (simp_all add: env_defs other_events_def)
  ultimately show ?thesis
    using validation_only_no_escalation[of env_refresh_falla s_stale] by simp
qed

lemma tickets_other_events: "tickets s = length (filter is_ticket (other_events s))"
proof -
  have "is_ticket ev \<Longrightarrow> \<not> validation_event ev" for ev by (cases ev) simp_all
  then have "filter is_ticket (filter (\<lambda>ev. \<not> validation_event ev) l) = filter is_ticket l" for l
    by (induction l) auto
  then show ?thesis by (simp add: tickets_def other_events_def)
qed

text \<open>
  The ticket identifier follows the ticket attempts: whatever a flow does, the identifier
  it leaves is the one obtained by replaying, on the identifier it started with, the
  ticket attempts among the events it added. Nothing but the escalation handler writes it.
\<close>

lemma replay_append:
  "replay_tickets env t0 old (n2 @ n1)
     = replay_tickets env (replay_tickets env t0 old n1) (n1 @ old) n2"
  by (induction n2) simp_all

lemma follows_refl [simp]: "follows env s s"
  by (simp add: follows_def)

lemma follows_trans:
  assumes "follows env a b" and "follows env b c"
  shows "follows env a c"
proof -
  from assms(1) obtain n1 where
    n1: "events b = n1 @ events a" "ticket_jira b = replay_tickets env (ticket_jira a) (events a) n1"
    by (auto simp: follows_def)
  from assms(2) obtain n2 where
    n2: "events c = n2 @ events b" "ticket_jira c = replay_tickets env (ticket_jira b) (events b) n2"
    by (auto simp: follows_def)
  have "events c = (n2 @ n1) @ events a" using n1 n2 by simp
  moreover have "ticket_jira c = replay_tickets env (ticket_jira a) (events a) (n2 @ n1)"
    using n1 n2 by (simp add: replay_append)
  ultimately show ?thesis unfolding follows_def by blast
qed

lemma follows_event:
  "\<not> is_ticket ev \<Longrightarrow> follows env s (s\<lparr>events := ev # events s\<rparr>)"
  unfolding follows_def by (intro exI[of _ "[ev]"]) simp

lemma follows_steps: "follows env s (s\<lparr>steps := xs\<rparr>)"
  unfolding follows_def by (intro exI[of _ "[]"]) simp

lemma tracksD: "tracks env p \<Longrightarrow> p s = (r, s') \<Longrightarrow> follows env s s'"
  by (simp add: tracks_def)

lemma tracks_return [simp]: "tracks env (return a)"
  by (auto simp: tracks_def return_def)

lemma tracks_call [simp]: "\<not> is_ticket ev \<Longrightarrow> tracks env (call ev oracle)"
  by (auto simp: tracks_def call_def Let_def follows_event)

lemma tracks_bind:
  assumes "tracks env m" and "\<And>a. tracks env (k a)"
  shows "tracks env (bind m k)"
proof (unfold tracks_def, intro allI impI)
  fix s r s'
  assume run: "bind m k s = (r, s')"
  obtain r1 s1 where ms: "m s = (r1, s1)" by (cases "m s")
  have f1: "follows env s s1" using tracksD[OF assms(1) ms] .
  show "follows env s s'"
  proof (cases r1)
    case (Inl e)
    then show ?thesis using run ms f1 by (simp add: bind_def)
  next
    case (Inr a)
    then have "k a s1 = (r, s')" using run ms by (simp add: bind_def)
    then have "follows env s1 s'" using tracksD[OF assms(2)] by blast
    then show ?thesis using f1 follows_trans by blast
  qed
qed

lemma tracks_try:
  assumes "tracks env m" and "\<And>e. tracks env (h e)"
  shows "tracks env (try_except m h)"
proof (unfold tracks_def, intro allI impI)
  fix s r s'
  assume run: "try_except m h s = (r, s')"
  obtain r1 s1 where ms: "m s = (r1, s1)" by (cases "m s")
  have f1: "follows env s s1" using tracksD[OF assms(1) ms] .
  show "follows env s s'"
  proof (cases r1)
    case (Inr a)
    then show ?thesis using run ms f1 by (simp add: try_except_def)
  next
    case (Inl e)
    then have "h e s1 = (r, s')" using run ms by (simp add: try_except_def)
    then have "follows env s1 s'" using tracksD[OF assms(2)] by blast
    then show ?thesis using f1 follows_trans by blast
  qed
qed

lemma tracks_if:
  "tracks env p \<Longrightarrow> tracks env q \<Longrightarrow> tracks env (if c then p else q)"
  by simp

lemma tracks_execute_step:
  assumes "tracks env func"
  shows "tracks env (execute_step env nom func)"
proof (unfold tracks_def, intro allI impI)
  fix s r s'
  assume run: "execute_step env nom func s = (r, s')"
  obtain out s1 where f: "func s = (out, s1)" by (cases "func s")
  have f1: "follows env s s1" using tracksD[OF assms f] .
  obtain x where s': "s' = s1\<lparr>steps := steps s1 @ [x], events := StepComplete x # events s1\<rparr>"
    using run f
    by (auto simp: execute_step_def call_def Let_def split: sum.splits prod.splits)
  have "follows env s1 s'"
    unfolding follows_def s' by (intro exI[of _ "[StepComplete x]"]) simp
  then show "follows env s s'" using f1 follows_trans by blast
qed

lemma tracks_with_tableau:
  assumes "tracks env body"
  shows "tracks env (with_tableau env body)"
proof (unfold tracks_def, intro allI impI)
  fix s r s'
  assume run: "with_tableau env body s = (r, s')"
  define s1 where "s1 = s\<lparr>events := TableauSignIn # events s\<rparr>"
  obtain r2 s2 where b: "body s1 = (r2, s2)" by (cases "body s1")
  have a: "follows env s s1" unfolding s1_def by (rule follows_event) simp
  have c: "follows env s1 s2" using tracksD[OF assms b] .
  have "s' = s2 \<or> s' = s2\<lparr>events := TableauSignOut # events s2\<rparr>"
    using run b by (auto simp: with_tableau_def call_def Let_def s1_def split: if_splits)
  then have d: "follows env s2 s'" using follows_event[of TableauSignOut env s2] by auto
  show "follows env s s'" using a c d follows_trans by blast
qed

lemma handle_error_effect:
  "\<exists>s'. handle_error env paso error s = (Inr (), s') \<and>
     events s' = AlertaError (''Error en: '' @ paso) error (ticket_jira s') #
                 CrearTicketError (''[AUTO] Error en Reportes MP: '' @ paso) error # events s \<and>
     ticket_jira s' =
       ticket_after_attempt env (ticket_jira s)
         (CrearTicketError (''[AUTO] Error en Reportes MP: '' @ paso) error # events s)"
  by (auto simp: handle_error_def crear_ticket_error_def enviar_alerta_error_def
        send_via_dbmail_def try_except_def bind_def return_def call_def Let_def
        ticket_after_attempt_def
        split: if_splits sum.splits prod.splits)

lemma tracks_handle_error [simp]: "tracks env (handle_error env paso error)"
proof (unfold tracks_def, intro allI impI)
  fix s r s'
  assume run: "handle_error env paso error s = (r, s')"
  from handle_error_effect[of env paso error s] run have
    e: "events s' = AlertaError (''Error en: '' @ paso) error (ticket_jira s') #
                 CrearTicketError (''[AUTO] Error en Reportes MP: '' @ paso) error # events s"
    and t: "ticket_jira s' =
       ticket_after_attempt env (ticket_jira s)
         (CrearTicketError (''[AUTO] Error en Reportes MP: '' @ paso) error # events s)"
    by auto
  show "follows env s s'"
    unfolding follows_def
    by (intro exI[of _ "[AlertaError (''Error en: '' @ paso) error (ticket_jira s'),
                         CrearTicketError (''[AUTO] Error en Reportes MP: '' @ paso) error]"])
       (simp add: e t)
qed

lemma tracks_send_via_dbmail: "\<not> is_ticket mail \<Longrightarrow> tracks env (send_via_dbmail env mail)"
  by (auto simp: send_via_dbmail_def intro!: tracks_try tracks_bind)

lemma tracks_exito [simp]: "tracks env (exito env prefix)"
proof (unfold tracks_def, intro allI impI)
  fix s r s'
  assume run: "exito env prefix s = (r, s')"
  show "follows env s s'"
  proof (cases "start_time s")
    case None
    then show ?thesis using run by (auto simp: exito_def)
  next
    case (Some t0)
    have "tracks env (bind (enviar_resumen_proceso env True (steps s) (clock env (events s) - t0))
                (\<lambda>sent. return (True, prefix @ fmt2 env (clock env (events s) - t0) @ ''s'')))"
      by (auto simp: enviar_resumen_proceso_def intro!: tracks_bind tracks_send_via_dbmail)
    then show ?thesis using run Some by (auto simp: exito_def Let_def dest: tracksD)
  qed
qed

lemma tracks_op_validar [simp]: "tracks env (op_validar_extracto env)"
  by (auto simp: op_validar_extracto_def intro!: tracks_bind)

lemma tracks_op_refresh [simp]: "tracks env (op_refresh_extracto env)"
  by (auto simp: op_refresh_extracto_def intro!: tracks_bind split: prod.splits)

lemma tracks_validar_inventario [simp]: "tracks env (validar_inventario env)"
  by (auto simp: validar_inventario_def infocentral_validar_inventario_def
           intro!: tracks_bind split: prod.splits)

lemma tracks_op_enviar [simp]: "tracks env (op_enviar_correos env a b)"
  by (auto simp: op_enviar_correos_def enviar_reportes_def
           intro!: tracks_bind tracks_try split: prod.splits)

lemma tracks_descargar [simp]: "tracks env (descargar_pdfs env)"
  by (auto simp: descargar_pdfs_def intro!: tracks_bind split: prod.splits)

lemma tracks_copiar [simp]: "tracks env (copiar_archivos env)"
  by (auto simp: copiar_archivos_def intro!: tracks_try tracks_bind split: exn.splits)

lemma client_execute_job_follows:
  "client_execute_job env srv j s = (r, s') \<Longrightarrow> follows env s s'"
  by (auto simp: client_execute_job_def call_def Let_def follows_event)

lemma tracks_cubo [simp]: "tracks env (op_actualizar_cubo env)"
  by (auto simp: tracks_def op_actualizar_cubo_def ejecutar_job_inventario_def
           split: prod.splits dest: client_execute_job_follows)

lemma run_job_if_follows:
  "run_job_if env a errs s = (r, s') \<Longrightarrow> follows env s s'"
  by (auto simp: run_job_if_def split: prod.splits if_splits dest: client_execute_job_follows)

lemma jobs_loop_follows:
  "jobs_loop env acciones errs s = (r, s') \<Longrightarrow> follows env s s'"
proof (induction acciones arbitrary: errs s)
  case Nil
  then show ?case by simp
next
  case (Cons a rest)
  obtain e1 s1 where r1: "run_job_if env (row_get a ''Accion1'') errs s = (e1, s1)"
    by (cases "run_job_if env (row_get a ''Accion1'') errs s")
  obtain e2 s2 where r2: "run_job_if env (row_get a ''Accion2'') e1 s1 = (e2, s2)"
    by (cases "run_job_if env (row_get a ''Accion2'') e1 s1")
  have "jobs_loop env rest e2 s2 = (r, s')" using Cons.prems r1 r2 by (simp add: Let_def)
  then have "follows env s2 s'" using Cons.IH by blast
  then show ?case
    using run_job_if_follows[OF r1] run_job_if_follows[OF r2] follows_trans by blast
qed

lemma tracks_jobs [simp]: "tracks env (op_jobs_correctivos env acc)"
proof -
  have "tracks env (ejecutar_jobs_correctivos env rows)" for rows
    by (auto simp: tracks_def ejecutar_jobs_correctivos_def Let_def
             split: prod.splits if_splits dest: jobs_loop_follows)
  moreover have "tracks env (\<lambda>s. (acciones_of acc, s))"
    by (simp add: tracks_def)
  ultimately show ?thesis
    by (auto simp: op_jobs_correctivos_def intro!: tracks_bind)
qed

lemma tracks_then_continue:
  assumes "tracks env g" and "tracks env rest"
  shows "tracks env (then_continue g rest)"
proof (unfold tracks_def, intro allI impI)
  fix s r s'
  assume run: "then_continue g rest s = (r, s')"
  obtain r1 s1 where gs: "g s = (r1, s1)" by (cases "g s")
  have f1: "follows env s s1" using tracksD[OF assms(1) gs] .
  show "follows env s s'"
  proof (cases "r1 = Inr None")
    case False
    then have "s' = s1"
      using run gs by (auto simp: then_continue_def split: sum.splits option.splits)
    then show ?thesis using f1 by simp
  next
    case True
    then have "rest s1 = (r, s')" using run gs by (simp add: then_continue_def)
    then show ?thesis using tracksD[OF assms(2)] f1 follows_trans by blast
  qed
qed

lemma tracks_paso1: "tracks env (paso1_extracto env)"
  unfolding paso1_extracto_def
  by (auto intro!: tracks_with_tableau tracks_bind tracks_execute_step)

lemma tracks_paso2: "tracks env (paso2_inventario env)"
  unfolding paso2_inventario_def
  by (auto intro!: tracks_bind tracks_execute_step)

lemma tracks_paso3: "tracks env (paso3_descargar env)"
  unfolding paso3_descargar_def
  by (auto intro!: tracks_with_tableau tracks_bind tracks_execute_step)

lemma tracks_paso4: "tracks env (paso4_copiar env)"
  unfolding paso4_copiar_def
  by (auto intro!: tracks_bind tracks_execute_step)

lemma tracks_paso5: "tracks env (paso5_enviar env)"
  unfolding paso5_enviar_def
  by (auto intro!: tracks_bind tracks_execute_step)

lemma tracks_run_full_try: "tracks env (run_full_try env)"
  unfolding run_full_try_def
  by (intro tracks_then_continue tracks_paso1 tracks_paso2 tracks_paso3 tracks_paso4
        tracks_paso5 tracks_exito)

lemma replay_no_ticket:
  "filter is_ticket new = [] \<Longrightarrow> replay_tickets env t0 old new = t0"
  by (induction new) (auto split: if_splits)

lemma replay_at_most_one:
  assumes "length (filter is_ticket new) \<le> 1"
  shows "(filter is_ticket new = [] \<and> replay_tickets env t0 old new = t0) \<or>
         (\<exists>pre t d post. new = pre @ CrearTicketError t d # post \<and>
            filter is_ticket pre = [] \<and> filter is_ticket post = [] \<and>
            replay_tickets env t0 old new
              = ticket_after_attempt env t0 (CrearTicketError t d # post @ old))"
proof (cases "filter is_ticket new")
  case Nil
  then show ?thesis by (simp add: replay_no_ticket)
next
  case (Cons ev rest)
  then have rest: "rest = []" using assms by simp
  from Cons obtain pre post where
    sp: "new = pre @ ev # post" "\<forall>u\<in>set pre. \<not> is_ticket u" "is_ticket ev"
        "rest = filter is_ticket post"
    by (auto simp: filter_eq_Cons_iff)
  obtain t d where ev: "ev = CrearTicketError t d" using sp(3) by (cases ev) simp_all
  have pre: "filter is_ticket pre = []" using sp(2) by (simp add: filter_empty_conv)
  have post: "filter is_ticket post = []" using sp(4) rest by simp
  have "replay_tickets env t0 old new
          = replay_tickets env (replay_tickets env t0 old (ev # post)) ((ev # post) @ old) pre"
    unfolding sp(1) by (rule replay_append)
  also have "\<dots> = replay_tickets env t0 old (ev # post)" by (rule replay_no_ticket[OF pre])
  also have "\<dots> = ticket_after_attempt env t0 (ev # post @ old)"
    using sp(3) by (simp add: replay_no_ticket[OF post])
  finally show ?thesis using sp(1) ev pre post by blast
qed

lemma run_full_follows:
  "\<exists>new. events (snd (run_full env s)) = new @ events s \<and>
         ticket_jira (snd (run_full env s)) = replay_tickets env None (events s) new"
proof -
  define s1 where "s1 = s\<lparr>start_time := Some (clock env (events s)), steps := [],
                          ticket_jira := None\<rparr>"
  have t: "tracks env (try_except (run_full_try env)
           (\<lambda>e. bind (handle_error env ''Error Inesperado'' (str_exn e))
                  (\<lambda>u. return (False, str_exn e))))"
    by (intro tracks_try tracks_run_full_try tracks_bind tracks_handle_error tracks_return)
  have "run_full env s = try_except (run_full_try env)
           (\<lambda>e. bind (handle_error env ''Error Inesperado'' (str_exn e))
                  (\<lambda>u. return (False, str_exn e))) s1"
    by (simp add: run_full_def s1_def)
  then have "follows env s1 (snd (run_full env s))"
    using tracksD[OF t, of s1] by (metis prod.collapse)
  then show ?thesis by (simp add: follows_def s1_def)
qed

lemma run_send_only_follows:
  "\<exists>new. events (snd (run_send_only env a b s)) = new @ events s \<and>
         ticket_jira (snd (run_send_only env a b s))
           = replay_tickets env (ticket_jira s) (events s) new"
proof -
  define s1 where "s1 = s\<lparr>start_time := Some (clock env (events s)), steps := []\<rparr>"
  define body where "body = try_except
           (bind (execute_step env ''Enviar Correos'' (op_enviar_correos env a b))
              (\<lambda>result.
                 if \<not> success result then
                   bind (handle_error env ''Envio de Correos'' (mensaje result))
                     (\<lambda>u. return (False, mensaje result))
                 else exito env ''Correos enviados exitosamente en ''))
           (\<lambda>e. bind (handle_error env ''Error Inesperado'' (str_exn e))
                  (\<lambda>u. return (False, str_exn e)))"
  have t: "tracks env body"
    unfolding body_def
    by (auto intro!: tracks_try tracks_bind tracks_execute_step)
  have "run_send_only env a b s = body s1"
    by (simp add: run_send_only_def s1_def body_def)
  then have "follows env s1 (snd (run_send_only env a b s))"
    using tracksD[OF t, of s1] by (metis prod.collapse)
  then show ?thesis by (simp add: follows_def s1_def)
qed

lemma run_validation_only_follows:
  "\<exists>new. events (snd (run_validation_only env s)) = new @ events s \<and>
         ticket_jira (snd (run_validation_only env s))
           = replay_tickets env (ticket_jira s) (events s) new"
proof -
  define s1 where "s1 = s\<lparr>start_time := Some (clock env (events s)), steps := []\<rparr>"
  define body where "body = with_tableau env
           (bind (execute_step env ''Validar Extracto Tableau'' (op_validar_extracto env))
              (\<lambda>result.
                 if success result then return (True, mensaje result)
                 else
                   bind (execute_step env ''Refresh Extracto'' (op_refresh_extracto env))
                     (\<lambda>result.
                        if success result then
                          bind (execute_step env ''Revalidar Extracto''
                                  (op_validar_extracto env))
                            (\<lambda>result. return (success result, mensaje result))
                        else return (False, mensaje result))))"
  have t: "tracks env body"
    unfolding body_def
    by (auto intro!: tracks_with_tableau tracks_bind tracks_execute_step)
  have "run_validation_only env s = body s1"
    by (simp add: run_validation_only_def s1_def body_def)
  then have "follows env s1 (snd (run_validation_only env s))"
    using tracksD[OF t, of s1] by (metis prod.collapse)
  then show ?thesis by (simp add: follows_def s1_def)
qed

lemma tickets_new:
  "events s' = new @ events s \<Longrightarrow> tickets s' = length (filter is_ticket new) + tickets s"
  by (simp add: tickets_def)

text \<open>
  C5. Within one run the ticket identifier is written at most once and never overwritten.
  Each flow adds at most one ticket attempt to the events. If it adds none, the identifier
  at the end is the one the run started with (none, for the full flow, which resets it).
  If it adds one, the identifier at the end is exactly what the escalation handler stored
  at that attempt: the key of the ticket just created or, when no ticket was created, the
  identifier held before; nothing that runs after the attempt changes it. The
  validation-only flow makes no attempt and leaves the identifier as it was.
\<close>

theorem ticket_set_at_most_once:
  "(\<exists>new. events (snd (run_full env s)) = new @ events s \<and>
      (filter is_ticket new = [] \<and> ticket_jira (snd (run_full env s)) = None \<or>
       (\<exists>pre t d post. new = pre @ CrearTicketError t d # post \<and>
          filter is_ticket pre = [] \<and> filter is_ticket post = [] \<and>
          ticket_jira (snd (run_full env s))
            = ticket_after_attempt env None (CrearTicketError t d # post @ events s)))) \<and>
   (\<exists>new. events (snd (run_send_only env a b s)) = new @ events s \<and>
      (filter is_ticket new = [] \<and> ticket_jira (snd (run_send_only env a b s)) = ticket_jira s \<or>
       (\<exists>pre t d post. new = pre @ CrearTicketError t d # post \<and>
          filter is_ticket pre = [] \<and> filter is_ticket post = [] \<and>
          ticket_jira (snd (run_send_only env a b s))
            = ticket_after_attempt env (ticket_jira s)
                (CrearTicketError t d # post @ events s)))) \<and>
   (\<exists>new. events (snd (run_validation_only env s)) = new @ events s \<and>
      filter is_ticket new = [] \<and>
      ticket_jira (snd (run_validation_only env s)) = ticket_jira s)"
proof (intro conjI)
  have full: "run_full env s = (fst (run_full env s), snd (run_full env s))" by simp
  from run_full_follows[of env s] obtain new where
    n: "events (snd (run_full env s)) = new @ events s"
       "ticket_jira (snd (run_full env s)) = replay_tickets env None (events s) new"
    by blast
  have "tickets (snd (run_full env s)) \<le> Suc (tickets s)"
    using run_full_summary[OF full] by (auto split: if_splits)
  then have "length (filter is_ticket new) \<le> 1" using tickets_new[OF n(1)] by simp
  from replay_at_most_one[OF this, of env None "events s"] n
  show "\<exists>new. events (snd (run_full env s)) = new @ events s \<and>
      (filter is_ticket new = [] \<and> ticket_jira (snd (run_full env s)) = None \<or>
       (\<exists>pre t d post. new = pre @ CrearTicketError t d # post \<and>
          filter is_ticket pre = [] \<and> filter is_ticket post = [] \<and>
          ticket_jira (snd (run_full env s))
            = ticket_after_attempt env None (CrearTicketError t d # post @ events s)))"
    by (intro exI[of _ new]) simp
next
  have send: "run_send_only env a b s
                = (fst (run_send_only env a b s), snd (run_send_only env a b s))" by simp
  from run_send_only_follows[of env a b s] obtain new where
    n: "events (snd (run_send_only env a b s)) = new @ events s"
       "ticket_jira (snd (run_send_only env a b s))
          = replay_tickets env (ticket_jira s) (events s) new"
    by blast
  have "tickets (snd (run_send_only env a b s)) \<le> Suc (tickets s)"
    using run_send_only_summary[OF send] by (auto split: if_splits)
  then have "length (filter is_ticket new) \<le> 1" using tickets_new[OF n(1)] by simp
  from replay_at_most_one[OF this, of env "ticket_jira s" "events s"] n
  show "\<exists>new. events (snd (run_send_only env a b s)) = new @ events s \<and>
      (filter is_ticket new = [] \<and> ticket_jira (snd (run_send_only env a b s)) = ticket_jira s \<or>
       (\<exists>pre t d post. new = pre @ CrearTicketError t d # post \<and>
          filter is_ticket pre = [] \<and> filter is_ticket post = [] \<and>
          ticket_jira (snd (run_send_only env a b s))
            = ticket_after_attempt env (ticket_jira s)
                (CrearTicketError t d # post @ events s)))"
    by (intro exI[of _ new]) simp
next
  from run_validation_only_follows[of env s] obtain new where
    n: "events (snd (run_validation_only env s)) = new @ events s" by blast
  have "tickets (snd (run_validation_only env s)) = tickets s"
       "ticket_jira (snd (run_validation_only env s)) = ticket_jira s"
    using run_validation_only_keeps[of env s]
    by (simp_all add: escalation_view_def tickets_other_events)
  then show "\<exists>new. events (snd (run_validation_only env s)) = new @ events s \<and>
      filter is_ticket new = [] \<and>
      ticket_jira (snd (run_validation_only env s)) = ticket_jira s"
    using n tickets_new[OF n] by (intro exI[of _ new]) simp
qed

theorem ticket_set_at_most_once_witness:
  "tickets (snd (run_full env_descarga_falla s_init)) = 1 \<and>
   ticket_jira (snd (run_full env_descarga_falla s_init)) = Some ''DDF-1'' \<and>
   tickets (snd (run_full env_ok s_stale)) = 0 \<and>
   ticket_jira (snd (run_full env_ok s_stale)) = None"
proof -
  have a: "tickets (snd (run_full env_descarga_falla s_init)) = 1 \<and>
           ticket_jira (snd (run_full env_descarga_falla s_init)) = Some ''DDF-1''"
    by (simp add: flow_defs env_defs tickets_def)
  have b: "tickets (snd (run_full env_ok s_stale)) = 0"
    by (simp add: flow_defs env_defs tickets_def str_nat.simps digit_char_def)
  have c: "tickets s_stale = 0" by (simp add: env_defs tickets_def)
  have d: "ticket_jira (snd (run_full env_ok s_stale)) = None"
    using ticket_set_at_most_once[of env_ok s_stale 0 0] b c by (auto simp: tickets_def)
  show ?thesis using a b d by simp
qed

lemma run_full_returns: "\<exists>v. fst (run_full env s) = Inr v"
proof -
  have "run_full env s = (fst (run_full env s), snd (run_full env s))" by simp
  from run_full_summary[OF this] show ?thesis by blast
qed

lemma run_send_only_returns: "\<exists>v. fst (run_send_only env a b s) = Inr v"
proof -
  have "run_send_only env a b s = (fst (run_send_only env a b s), snd (run_send_only env a b s))"
    by simp
  from run_send_only_summary[OF this] show ?thesis by blast
qed

text \<open>
  C8, at the input where the code departs from it: an observer callback that raises. The
  full flow turns the exception into a failure verdict; the validation-only flow has no
  handler and the exception leaves it.
\<close>

theorem validation_only_observer_escapes:
  "fst (run_validation_only env_observer_raises s_init) = Inl (Error ''observer failed'') \<and>
   fst (run_full env_observer_raises s_init) = Inr (False, ''observer failed'') \<and>
   fst (run_send_only env_observer_raises 0 0 s_init) = Inr (False, ''observer failed'')"
  by (simp add: flow_defs env_defs)

lemma run_full_reset:
  "run_full env (s\<lparr>steps := xs, start_time := t, ticket_jira := k\<rparr>) = run_full env s"
  by (simp add: run_full_def)

lemma run_send_only_reset:
  "run_send_only env a b (s\<lparr>steps := xs, start_time := t\<rparr>) = run_send_only env a b s"
  by (simp add: run_send_only_def)

text \<open>
  C10. The full flow resets the step list, the start time and the ticket identifier: its
  outcome does not depend on what they held. The send-only flow resets the first two only,
  so when an earlier run left a ticket identifier and the tracker yields no new ticket, the
  error alert of a failed send-only run carries the earlier identifier, which also stays
  stored.
\<close>

theorem send_only_keeps_stale_ticket:
  "run_full env (s\<lparr>steps := xs, start_time := t, ticket_jira := k\<rparr>) = run_full env s \<and>
   run_send_only env a b (s\<lparr>steps := xs, start_time := t\<rparr>) = run_send_only env a b s \<and>
   (ticket_jira s = Some old \<and> ticket_fails env \<and>
    fst (run_send_only env a b s) = Inr (False, m) \<longrightarrow>
      ticket_jira (snd (run_send_only env a b s)) = Some old \<and>
      (\<exists>p. events (snd (run_send_only env a b s)) =
             AlertaError (''Error en: '' @ p) m (Some old) #
             CrearTicketError (''[AUTO] Error en Reportes MP: '' @ p) m #
             tl (tl (events (snd (run_send_only env a b s))))))"
proof -
  have send: "run_send_only env a b s
                = (fst (run_send_only env a b s), snd (run_send_only env a b s))" by simp
  have "ticket_jira (snd (run_send_only env a b s)) = Some old \<and>
      (\<exists>p. events (snd (run_send_only env a b s)) =
             AlertaError (''Error en: '' @ p) m (Some old) #
             CrearTicketError (''[AUTO] Error en Reportes MP: '' @ p) m #
             tl (tl (events (snd (run_send_only env a b s)))))"
    if h: "ticket_jira s = Some old" "ticket_fails env"
          "fst (run_send_only env a b s) = Inr (False, m)"
    using run_send_only_summary[OF send] h by auto
  then show ?thesis by (simp add: run_full_reset run_send_only_reset)
qed

theorem send_only_keeps_stale_ticket_witness:
  "ticket_jira (snd (run_send_only env_envio_falla 0 0 s_stale)) = Some ''DDF-7'' \<and>
   take 2 (events (snd (run_send_only env_envio_falla 0 0 s_stale))) =
     [AlertaError ''Error en: Envio de Correos'' ''SP failed'' (Some ''DDF-7''),
      CrearTicketError ''[AUTO] Error en Reportes MP: Envio de Correos'' ''SP failed'']"
proof -
  have a: "ticket_jira s_stale = Some ''DDF-7''" by (simp add: env_defs)
  have b: "ticket_fails env_envio_falla" by (simp add: ticket_fails_def env_defs)
  have c: "fst (run_send_only env_envio_falla 0 0 s_stale) = Inr (False, ''SP failed'')"
    by (simp add: flow_defs env_defs)
  have d: "take 2 (events (snd (run_send_only env_envio_falla 0 0 s_stale))) =
     [AlertaError ''Error en: Envio de Correos'' ''SP failed'' (Some ''DDF-7''),
      CrearTicketError ''[AUTO] Error en Reportes MP: Envio de Correos'' ''SP failed'']"
    by (simp add: flow_defs env_defs)
  show ?thesis
    using send_only_keeps_stale_ticket[where env = env_envio_falla and s = s_stale and a = 0 and b = 0
          and old = "''DDF-7''" and m = "''SP failed''"]
      a b c d by simp
qed

subsection \<open>What follows a failed validation\<close>

lemma gate_appends:
  "gate_spec N g \<Longrightarrow> g s = (r, s') \<Longrightarrow> \<exists>ad. steps s' = steps s @ ad"
  unfolding gate_spec_def by blast

lemma escalation_appends:
  "escalation_only g \<Longrightarrow> g s = (r, s') \<Longrightarrow> \<exists>ad. steps s' = steps s @ ad"
  unfolding escalation_only_def by fastforce

lemma step_first:
  assumes fr: "op_frame func"
    and run: "bind (execute_step env nom func) k s = (r, s')"
    and app: "\<forall>x t r' t'. k x t = (r', t') \<longrightarrow> (\<exists>ad. steps t' = steps t @ ad)"
  shows "\<exists>y ys. steps s' = steps s @ y # ys \<and> nombre y = nom"
proof -
  obtain r1 s1 where es: "execute_step env nom func s = (r1, s1)"
    by (cases "execute_step env nom func s")
  from execute_stepE[OF fr es] obtain y where
    y: "steps s1 = steps s @ [y]" "nombre y = nom" "r1 = Inr y \<or> (\<exists>e. r1 = Inl e)" by blast
  show ?thesis
  proof (cases r1)
    case (Inl e)
    then have "s' = s1" using run es by (simp add: bind_def)
    then show ?thesis using y by auto
  next
    case (Inr z)
    then have "k z s1 = (r, s')" using run es by (simp add: bind_def)
    with app obtain ad where "steps s' = steps s1 @ ad" by blast
    then show ?thesis using y by auto
  qed
qed

text \<open>
  What the source does, by design, after a failure of each of the two steps that the
  property of the failed gates leaves out: a failed extract validation is followed by the
  refresh step, and a failed inventory validation whose details flag differences by the
  corrective-jobs step. No step follows only when the observer callback raised.
\<close>

lemma failed_validation_then_refresh:
  assumes "paso1_extracto env s = (r, s')"
  shows "\<exists>x rest. steps s' = steps s @ x # rest \<and> nombre x = ''1. Validar Extracto Tableau'' \<and>
           (\<not> success x \<longrightarrow>
              (case rest of [] \<Rightarrow> \<exists>e. r = Inl e | y # ys \<Rightarrow> nombre y = ''1.1 Refresh Extracto''))"
proof -
  let ?k2 = "\<lambda>result.
                    if \<not> success result then
                      bind (handle_error env ''Refresh de Extracto'' (mensaje result))
                        (\<lambda>u. return (Some (False, ''Error en extracto: '' @ mensaje result)))
                    else
                      bind (execute_step env ''1.2 Revalidar Extracto''
                              (op_validar_extracto env))
                        (\<lambda>result.
                           if \<not> success result then
                             bind (handle_error env ''Validacion post-refresh''
                                     (mensaje result))
                               (\<lambda>u. return (Some (False,
                                      ''Extracto sigue desactualizado: '' @ mensaje result)))
                           else return None)"
  let ?k1 = "\<lambda>result.
             if \<not> success result then
               bind (execute_step env ''1.1 Refresh Extracto'' (op_refresh_extracto env)) ?k2
             else return None"
  from with_tableau_steps[OF assms[unfolded paso1_extracto_def]] obtain s1 s2 where
    b: "bind (execute_step env ''1. Validar Extracto Tableau'' (op_validar_extracto env)) ?k1 s1
          = (r, s2)"
    and st: "steps s1 = steps s" "steps s' = steps s2" by blast
  obtain r1 t1 where es:
    "execute_step env ''1. Validar Extracto Tableau'' (op_validar_extracto env) s1 = (r1, t1)"
    by (cases "execute_step env ''1. Validar Extracto Tableau'' (op_validar_extracto env) s1")
  from execute_stepE[OF op_frame_validar es] obtain x where
    x: "steps t1 = steps s1 @ [x]" "nombre x = ''1. Validar Extracto Tableau''"
       "r1 = Inr x \<or> (\<exists>e. r1 = Inl e)" by blast
  let ?goal = "\<lambda>rest. steps s' = steps s @ x # rest \<and> nombre x = ''1. Validar Extracto Tableau'' \<and>
           (\<not> success x \<longrightarrow>
              (case rest of [] \<Rightarrow> \<exists>e. r = Inl e | y # ys \<Rightarrow> nombre y = ''1.1 Refresh Extracto''))"
  have "\<exists>rest. ?goal rest"
  proof (cases r1)
    case (Inl e)
    then have "r = Inl e" "s2 = t1" using b es by (auto simp: bind_def)
    then have "?goal []" using x st by auto
    then show ?thesis ..
  next
    case (Inr z)
    then have zx: "z = x" using x(3) by auto
    show ?thesis
    proof (cases "success x")
      case True
      then have "s2 = t1" using b es Inr zx by (auto simp: bind_def return_def)
      then have "?goal []" using x st True by auto
      then show ?thesis ..
    next
      case False
      then have inner: "bind (execute_step env ''1.1 Refresh Extracto'' (op_refresh_extracto env))
                          ?k2 t1 = (r, s2)"
        using b es Inr zx by (simp add: bind_def)
      have "\<exists>ad. steps t' = steps t @ ad" if "?k2 y t = (r', t')" for y t r' t'
      proof (cases "success y")
        case False
        then show ?thesis
          using that escalation_appends[OF escalation_only_handle] by auto
      next
        case True
        have "gate_spec names1 (bind (execute_step env ''1.2 Revalidar Extracto''
                              (op_validar_extracto env))
                        (\<lambda>result.
                           if \<not> success result then
                             bind (handle_error env ''Validacion post-refresh''
                                     (mensaje result))
                               (\<lambda>u. return (Some (False,
                                      ''Extracto sigue desactualizado: '' @ mensaje result)))
                           else return None))"
          unfolding names1_def
          by (auto simp: hard_failed_def escalation_only_handle intro!: gate_step)
        then show ?thesis using that True gate_appends by auto
      qed
      then have app: "\<forall>y t r' t'. ?k2 y t = (r', t') \<longrightarrow> (\<exists>ad. steps t' = steps t @ ad)"
        by blast
      from step_first[OF op_frame_refresh inner app] obtain y ys where
        "steps s2 = steps t1 @ y # ys" "nombre y = ''1.1 Refresh Extracto''" by blast
      then have "?goal (y # ys)" using x st by auto
      then show ?thesis ..
    qed
  qed
  then show ?thesis by blast
qed

lemma differences_then_corrective_jobs:
  assumes "paso2_inventario env s = (r, s')"
  shows "\<exists>x rest. steps s' = steps s @ x # rest \<and> nombre x = ''2. Validar Inventario SQL'' \<and>
           (\<not> success x \<and> truthy_det (map_of (detalles x) ''hay_diferencias'') \<longrightarrow>
              (case rest of [] \<Rightarrow> \<exists>e. r = Inl e
               | y # ys \<Rightarrow> nombre y = ''2.1 Ejecutar Jobs Correctivos''))"
proof -
  obtain r1 s1 where es:
    "execute_step env ''2. Validar Inventario SQL'' (validar_inventario env) s = (r1, s1)"
    by (cases "execute_step env ''2. Validar Inventario SQL'' (validar_inventario env) s")
  from execute_stepE[OF op_frame_validar_inventario es] obtain x where
    x: "steps s1 = steps s @ [x]" "nombre x = ''2. Validar Inventario SQL''"
       "r1 = Inr x \<or> (\<exists>e. r1 = Inl e)" by blast
  let ?goal = "\<lambda>rest. steps s' = steps s @ x # rest \<and> nombre x = ''2. Validar Inventario SQL'' \<and>
           (\<not> success x \<and> truthy_det (map_of (detalles x) ''hay_diferencias'') \<longrightarrow>
              (case rest of [] \<Rightarrow> \<exists>e. r = Inl e
               | y # ys \<Rightarrow> nombre y = ''2.1 Ejecutar Jobs Correctivos''))"
  have "\<exists>rest. ?goal rest"
  proof (cases r1)
    case (Inl e)
    then have "r = Inl e" "s' = s1" using assms es by (auto simp: paso2_inventario_def bind_def)
    then have "?goal []" using x by auto
    then show ?thesis ..
  next
    case (Inr z)
    then have zx: "z = x" using x(3) by auto
    show ?thesis
    proof (cases "\<not> success x \<and> truthy_det (map_of (detalles x) ''hay_diferencias'')")
      case False
      then have "s' = s1"
        using assms es Inr zx by (auto simp: paso2_inventario_def bind_def return_def)
      then have "?goal []" using x False by auto
      then show ?thesis ..
    next
      case True
      let ?k = "\<lambda>result.
           if \<not> success result then
             bind (handle_error env ''Jobs Correctivos'' (mensaje result))
               (\<lambda>u. return (Some (False, ''Error en jobs correctivos: '' @ mensaje result)))
           else
             bind (execute_step env ''2.2 Actualizar Cubo'' (op_actualizar_cubo env))
               (\<lambda>result.
                  if \<not> success result then
                    bind (handle_error env ''Actualizacion de Cubo'' (mensaje result))
                      (\<lambda>u. return (Some (False, ''Error actualizando cubo: '' @ mensaje result)))
                  else return None)"
      have inner: "bind (execute_step env ''2.1 Ejecutar Jobs Correctivos''
                 (op_jobs_correctivos env (map_of (detalles x) ''acciones''))) ?k s1 = (r, s')"
        using assms es Inr zx True by (simp add: paso2_inventario_def bind_def)
      have "\<exists>ad. steps t' = steps t @ ad" if "?k y t = (r', t')" for y t r' t'
      proof (cases "success y")
        case False
        then show ?thesis
          using that escalation_appends[OF escalation_only_handle] by auto
      next
        case True
        have "gate_spec names2 (bind (execute_step env ''2.2 Actualizar Cubo'' (op_actualizar_cubo env))
               (\<lambda>result.
                  if \<not> success result then
                    bind (handle_error env ''Actualizacion de Cubo'' (mensaje result))
                      (\<lambda>u. return (Some (False, ''Error actualizando cubo: '' @ mensaje result)))
                  else return None))"
          unfolding names2_def
          by (auto simp: hard_failed_def escalation_only_handle intro!: gate_step)
        then show ?thesis using that True gate_appends by auto
      qed
      then have app: "\<forall>y t r' t'. ?k y t = (r', t') \<longrightarrow> (\<exists>ad. steps t' = steps t @ ad)"
        by blast
      from step_first[OF op_frame_jobs inner app] obtain y ys where
        "steps s' = steps s1 @ y # ys" "nombre y = ''2.1 Ejecutar Jobs Correctivos''" by blast
      then have "?goal (y # ys)" using x by auto
      then show ?thesis ..
    qed
  qed
  then show ?thesis by blast
qed

end
